theory Spec2Isabelle
  imports Main
begin

section \<open>Go library functions the program calls\<close>

text \<open>
  Strings are byte lists. Only the ASCII behaviour of the \<open>strings\<close> and
  \<open>path/filepath\<close> functions is modelled: case folding touches the letters A to Z, white
  space is the six ASCII space characters, and the path separator is the slash.
\<close>

definition strings_HasPrefix :: "string \<Rightarrow> string \<Rightarrow> bool" where
  "strings_HasPrefix s p = (take (length p) s = p)"

definition strings_HasSuffix :: "string \<Rightarrow> string \<Rightarrow> bool" where
  "strings_HasSuffix s suf = (length suf \<le> length s \<and> drop (length s - length suf) s = suf)"

definition strings_TrimPrefix :: "string \<Rightarrow> string \<Rightarrow> string" where
  "strings_TrimPrefix s p = (if strings_HasPrefix s p then drop (length p) s else s)"

definition strings_TrimSuffix :: "string \<Rightarrow> string \<Rightarrow> string" where
  "strings_TrimSuffix s suf =
     (if strings_HasSuffix s suf then take (length s - length suf) s else s)"

fun strings_Contains :: "string \<Rightarrow> string \<Rightarrow> bool" where
  "strings_Contains [] sub = (sub = [])"
| "strings_Contains (c # cs) sub = (strings_HasPrefix (c # cs) sub \<or> strings_Contains cs sub)"

definition lowerChar :: "char \<Rightarrow> char" where
  "lowerChar c =
     (case map_of (zip ''ABCDEFGHIJKLMNOPQRSTUVWXYZ'' ''abcdefghijklmnopqrstuvwxyz'') c of
        None \<Rightarrow> c | Some d \<Rightarrow> d)"

definition strings_ToLower :: "string \<Rightarrow> string" where
  "strings_ToLower s = map lowerChar s"

definition isSpace :: "char \<Rightarrow> bool" where
  "isSpace c = (c \<in> set [CHR 0x09, CHR 0x0A, CHR 0x0B, CHR 0x0C, CHR 0x0D, CHR '' ''])"

text \<open>\<open>strings.Fields\<close>: the maximal runs of non-space characters, in order. The first
  argument of the helper is the field being read, reversed.\<close>

fun fieldsFrom :: "string \<Rightarrow> string \<Rightarrow> string list" where
  "fieldsFrom cur [] = (if cur = [] then [] else [rev cur])"
| "fieldsFrom cur (c # cs) =
     (if isSpace c then (if cur = [] then fieldsFrom [] cs else rev cur # fieldsFrom [] cs)
      else fieldsFrom (c # cur) cs)"

definition strings_Fields :: "string \<Rightarrow> string list" where
  "strings_Fields s = fieldsFrom [] s"

definition strings_TrimSpace :: "string \<Rightarrow> string" where
  "strings_TrimSpace s = rev (dropWhile isSpace (rev (dropWhile isSpace s)))"

fun strings_Join :: "string list \<Rightarrow> string \<Rightarrow> string" where
  "strings_Join [] sep = []"
| "strings_Join [x] sep = x"
| "strings_Join (x # y # ys) sep = x @ sep @ strings_Join (y # ys) sep"

text \<open>\<open>strings.Split(s, "/")\<close>; the first argument is the element being read, reversed.\<close>

fun splitSlash :: "string \<Rightarrow> string \<Rightarrow> string list" where
  "splitSlash cur [] = [rev cur]"
| "splitSlash cur (c # cs) =
     (if c = CHR ''/'' then rev cur # splitSlash [] cs else splitSlash (c # cur) cs)"

text \<open>\<open>filepath.Clean\<close>, by the rules of its documentation: empty and \<open>.\<close> elements go, a
  \<open>..\<close> removes the element before it, a \<open>..\<close> at the root goes, a leading \<open>..\<close> of a
  relative path stays. The stack of kept elements is reversed.\<close>

definition cleanStep :: "bool \<Rightarrow> string list \<Rightarrow> string \<Rightarrow> string list" where
  "cleanStep rooted stk e =
     (if e = [] \<or> e = ''.'' then stk
      else if e = ''..'' then
        (case stk of
           [] \<Rightarrow> (if rooted then [] else [''..''])
         | t # ts \<Rightarrow> (if t = ''..'' then ''..'' # stk else ts))
      else e # stk)"

definition filepath_Clean :: "string \<Rightarrow> string" where
  "filepath_Clean p =
     (if p = [] then ''.''
      else
        (let rooted = (hd p = CHR ''/'');
             stk = rev (foldl (cleanStep rooted) [] (splitSlash [] p))
         in if rooted then CHR ''/'' # strings_Join stk ''/''
            else if stk = [] then ''.'' else strings_Join stk ''/''))"

text \<open>\<open>filepath.Join\<close> of two elements: empty elements before the first non-empty one
  are dropped, the rest is joined with a slash and cleaned.\<close>

definition filepath_Join :: "string \<Rightarrow> string \<Rightarrow> string" where
  "filepath_Join a b =
     (if a \<noteq> [] then filepath_Clean (a @ ''/'' @ b)
      else if b \<noteq> [] then filepath_Clean b
      else [])"

definition lastElem :: "string \<Rightarrow> string" where
  "lastElem p = rev (takeWhile (\<lambda>c. c \<noteq> CHR ''/'') (rev p))"

definition filepath_Base :: "string \<Rightarrow> string" where
  "filepath_Base p =
     (if p = [] then ''.''
      else
        (let q = lastElem (rev (dropWhile (\<lambda>c. c = CHR ''/'') (rev p)))
         in if q = [] then ''/'' else q))"

text \<open>\<open>filepath.Ext\<close>: from the last dot of the last element; empty when it has no dot.\<close>

definition filepath_Ext :: "string \<Rightarrow> string" where
  "filepath_Ext p =
     (let e = lastElem p
      in if CHR ''.'' \<in> set e then CHR ''.'' # rev (takeWhile (\<lambda>c. c \<noteq> CHR ''.'') (rev e))
         else [])"


section \<open>Data model\<close>

record Options =
  CXX :: string
  Std :: string
  Win64Docker :: bool
  Debug :: bool
  Strict :: bool
  Sloppy :: bool
  Opt :: bool
  Clang :: bool
  Run :: bool
  Test :: bool
  Clean :: bool
  Pro :: bool
  Version :: bool
  MainSource :: string
  OutputName :: string
  DetectedDistro :: string
  Sources :: "string list"
  TestSources :: "string list"
  IncludeDirs :: "string list"
  SystemIncludeDirs :: "string list"
  ExtraCFlags :: "string list"
  ExtraLDFlags :: "string list"

text \<open>\<open>CompileCache.Timestamps\<close>, a Go map from source path to seconds. Reading a key
  that is absent gives Go's zero value.\<close>

type_synonym CompileCache = "string \<Rightarrow> int option"

definition timestampOf :: "CompileCache \<Rightarrow> string \<Rightarrow> int" where
  "timestampOf cc src = (case cc src of None \<Rightarrow> 0 | Some t \<Rightarrow> t)"

text \<open>What \<open>os.Stat\<close> and \<open>os.ReadFile\<close> see at a path: whether it is a regular file, its
  modification time in nanoseconds since the epoch, and its text. A path with no entry
  cannot be stat'ed (it does not exist, or it is a symbolic link to nothing).\<close>

record finfo =
  regular :: bool
  mtime :: int
  content :: string

type_synonym fsys = "string \<Rightarrow> finfo option"

text \<open>\<open>Time.Unix\<close>: whole seconds since the epoch, rounded down.\<close>

definition unixSeconds :: "int \<Rightarrow> int" where
  "unixSeconds ns = ns div 1000000000"

text \<open>An entry of the directory tree that \<open>filepath.WalkDir\<close> visits: a directory with
  its entries in lexical order, or anything else (a file, a symbolic link).\<close>

datatype dirent = File string | Dir string "dirent list"

fun entName :: "dirent \<Rightarrow> string" where
  "entName (File n) = n"
| "entName (Dir n kids) = n"

text \<open>The file \<open>.cxxcache\<close>: absent, unreadable as a cache, or holding a mapping. Its JSON
  text is abstracted to the mapping it encodes.\<close>

datatype cachefile = NoCacheFile | BadCacheFile | Stored CompileCache

text \<open>The errors the program passes around.\<close>

datatype error = CommandFailed "string list" | PkgConfigNotFound | NoPkgConfigInfo string
  | EmptyCommand

text \<open>Calls of the staleness cache, recorded so that claims about how often a source is
  looked at can be stated: \<open>Evaluated src\<close> for a call of \<open>needsRebuild\<close> from
  \<open>compileOne\<close>, \<open>Updated src t\<close> for a write of \<open>updateTimestamp\<close>.\<close>

datatype cache_event = Evaluated string | Updated string int

text \<open>The part of the machine the program does not own. Processes are run by
  \<open>exec\<close>: from the argument vector and the files it gives success or failure, the
  combined output, and the files afterwards. \<open>mapOrder\<close> is the order in which Go iterates
  over the keys of a map, which the language leaves open. The directory tree walked by
  \<open>discoverSources\<close> is fixed for one run.\<close>

record env =
  cwd :: string
  goos :: string
  distro :: string
  entries :: "dirent list"
  lookPath :: "string \<Rightarrow> bool"
  mapOrder :: "string list \<Rightarrow> string list"
  exec :: "string list \<Rightarrow> fsys \<Rightarrow> bool \<times> string \<times> fsys"

text \<open>The state one run changes: the files, the cache file, what was printed, the
  processes started (argument vectors, in order), and the record of cache calls.\<close>

record world =
  files :: fsys
  cxxcache :: cachefile
  out :: "string list"
  procs :: "string list list"
  clog :: "cache_event list"

datatype outcome = Returned | Exit1 | Fatal string error

definition println :: "string \<Rightarrow> world \<Rightarrow> world" where
  "println s w = w\<lparr>out := out w @ [s]\<rparr>"

definition spawn :: "env \<Rightarrow> string list \<Rightarrow> world \<Rightarrow> bool \<times> string \<times> world" where
  "spawn e argv w =
     (case exec e argv (files w) of
        (ok, output, fs') \<Rightarrow> (ok, output, w\<lparr>files := fs', procs := procs w @ [argv]\<rparr>))"

definition fileExists :: "fsys \<Rightarrow> string \<Rightarrow> bool" where
  "fileExists fs p = (case fs p of None \<Rightarrow> False | Some i \<Rightarrow> regular i)"

definition readFile :: "fsys \<Rightarrow> string \<Rightarrow> string option" where
  "readFile fs p = (case fs p of None \<Rightarrow> None | Some i \<Rightarrow> if regular i then Some (content i) else None)"

section \<open>Arguments\<close>

definition parseArg :: "Options \<Rightarrow> string \<Rightarrow> Options" where
  "parseArg opts arg =
     (if arg = ''run'' then opts\<lparr>Run := True\<rparr>
      else if arg = ''test'' then opts\<lparr>Test := True\<rparr>
      else if arg = ''clean'' then opts\<lparr>Clean := True\<rparr>
      else if arg = ''pro'' then opts\<lparr>Pro := True\<rparr>
      else if arg = ''--version'' \<or> arg = ''version'' then opts\<lparr>Version := True\<rparr>
      else if arg = ''debug'' then opts\<lparr>Debug := True\<rparr>
      else if arg = ''strict'' then opts\<lparr>Strict := True\<rparr>
      else if arg = ''sloppy'' then opts\<lparr>Sloppy := True\<rparr>
      else if arg = ''opt'' then opts\<lparr>Opt := True\<rparr>
      else if arg = ''clang'' then opts\<lparr>Clang := True\<rparr>
      else if arg = ''--win64-docker''
        then opts\<lparr>Win64Docker := True, CXX := ''x86_64-w64-mingw32-g++''\<rparr>
      else if strings_HasPrefix arg ''--cxx='' then opts\<lparr>CXX := strings_TrimPrefix arg ''--cxx=''\<rparr>
      else if strings_HasPrefix arg ''cxx='' then opts\<lparr>CXX := strings_TrimPrefix arg ''cxx=''\<rparr>
      else opts)"

definition defaultOptions :: Options where
  "defaultOptions =
     \<lparr>CXX = ''g++'', Std = ''c++20'', Win64Docker = False, Debug = False, Strict = False,
      Sloppy = False, Opt = False, Clang = False, Run = False, Test = False, Clean = False,
      Pro = False, Version = False, MainSource = [], OutputName = [], DetectedDistro = [],
      Sources = [], TestSources = [], IncludeDirs = [], SystemIncludeDirs = [],
      ExtraCFlags = [], ExtraLDFlags = []\<rparr>"

definition parseArgs :: "string list \<Rightarrow> Options" where
  "parseArgs args = foldl parseArg defaultOptions args"

definition adjustCompiler :: "Options \<Rightarrow> Options" where
  "adjustCompiler opts =
     (if Clang opts \<and> \<not> Win64Docker opts then opts\<lparr>CXX := ''clang++''\<rparr> else opts)"

section \<open>Source classifier\<close>

definition hasSourceSuffix :: "string \<Rightarrow> bool" where
  "hasSourceSuffix path =
     (let l = strings_ToLower path
      in strings_HasSuffix l ''.c'' \<or> strings_HasSuffix l ''.cc'' \<or>
         strings_HasSuffix l ''.cpp'' \<or> strings_HasSuffix l ''.cxx'')"

text \<open>The callback of \<open>discoverSources\<close> under \<open>WalkDir\<close>: a directory whose name starts
  with a dot (the root \<open>.\<close> apart) is skipped with all it holds; any other entry is kept
  when its path has a source suffix. The callback returns no error of its own, so the
  walk never fails.\<close>

fun walkSources :: "string \<Rightarrow> dirent \<Rightarrow> string list" where
  "walkSources path (File n) = (if hasSourceSuffix path then [path] else [])"
| "walkSources path (Dir n kids) =
     (if strings_HasPrefix n ''.'' \<and> n \<noteq> ''.'' then []
      else concat (map (\<lambda>k. walkSources (filepath_Join path (entName k)) k) kids))"

definition discoverSources :: "env \<Rightarrow> string list" where
  "discoverSources e = walkSources ''.'' (Dir ''.'' (entries e))"

definition isTestSource :: "string \<Rightarrow> bool" where
  "isTestSource s =
     (let l = strings_ToLower (filepath_Base s)
      in if strings_HasSuffix l ''_test.cpp'' \<or> strings_HasSuffix l ''_test.cc'' \<or>
            strings_HasSuffix l ''_test.cxx'' \<or> strings_HasSuffix l ''_test.c''
         then True
         else l \<in> set [''test.cpp'', ''test.cc'', ''test.cxx'', ''test.c''])"

definition isMainName :: "string \<Rightarrow> bool" where
  "isMainName s =
     (let l = strings_ToLower (filepath_Base s)
      in l = ''main.cpp'' \<or> l = ''main.cc'' \<or> l = ''main.cxx'' \<or> l = ''main.c'')"

definition hasMainText :: "fsys \<Rightarrow> string \<Rightarrow> bool" where
  "hasMainText fs s =
     (case readFile fs s of None \<Rightarrow> False | Some b \<Rightarrow> strings_Contains b '' main('')"

definition findMainSource :: "fsys \<Rightarrow> string list \<Rightarrow> string" where
  "findMainSource fs srcs =
     (case find isMainName srcs of
        Some s \<Rightarrow> s
      | None \<Rightarrow>
          (let nt = filter (\<lambda>s. \<not> isTestSource s) srcs
           in case nt of
                [s] \<Rightarrow> (if hasMainText fs s then s else s)
              | _ \<Rightarrow> (case find (hasMainText fs) nt of Some s \<Rightarrow> s | None \<Rightarrow> [])))"

definition guessOutputNameFromMain :: "env \<Rightarrow> string \<Rightarrow> bool \<Rightarrow> string" where
  "guessOutputNameFromMain e mainSrc docker =
     (let b = filepath_Base (cwd e);
          b = (if b = ''src''
               then (let b' = strings_TrimSuffix (filepath_Base mainSrc) (filepath_Ext mainSrc)
                     in if b' = [] then ''main'' else b')
               else b)
      in if docker \<and> \<not> strings_HasSuffix b ''.exe'' then b @ ''.exe''
         else if goos e = ''windows'' \<and> \<not> strings_HasSuffix b ''.exe'' then b @ ''.exe''
         else b)"

definition ensureExeSuffix :: "env \<Rightarrow> string \<Rightarrow> bool \<Rightarrow> string" where
  "ensureExeSuffix e base docker =
     (if docker \<and> \<not> strings_HasSuffix base ''.exe'' then base @ ''.exe''
      else if goos e = ''windows'' \<and> \<not> strings_HasSuffix base ''.exe'' then base @ ''.exe''
      else base)"

section \<open>Include scanner and header resolver\<close>

definition stdIncludesSkipList :: "string list" where
  "stdIncludesSkipList =
     [''algorithm'', ''array'', ''barrier'', ''bit'', ''bitset'', ''cassert'', ''ccomplex'',
      ''cctype'', ''cerrno'', ''cfenv'', ''cfloat'', ''chrono'', ''cinttypes'', ''ciso646'',
      ''climits'', ''clocale'', ''cmath'', ''codecvt'', ''complex'', ''condition_variable'',
      ''coroutine'', ''cstdio'', ''cstdlib'', ''cstring'', ''ctime'', ''cwchar'', ''cwctype'',
      ''deque'', ''exception'', ''execution'', ''filesystem'', ''format'', ''forward_list'',
      ''fstream'', ''functional'', ''future'', ''initializer_list'', ''iomanip'', ''ios'',
      ''iosfwd'', ''iostream'', ''istream'', ''iterator'', ''latch'', ''limits'', ''list'',
      ''locale'', ''map'', ''memory'', ''mutex'', ''new'', ''numbers'', ''numeric'', ''optional'',
      ''ostream'', ''queue'', ''random'', ''ranges'', ''ratio'', ''regex'', ''scoped_allocator'',
      ''semaphore'', ''set'', ''shared_mutex'', ''source_location'', ''span'', ''sstream'',
      ''stack'', ''stdexcept'', ''steambuf'', ''stop_token'', ''streambuf'', ''string'',
      ''string_view'', ''strstream'', ''syncstream'', ''system_error'', ''tgmath'',
      ''thread'', ''tuple'', ''type_traits'', ''typeindex'', ''typeinfo'', ''unordered_map'',
      ''unordered_set'', ''utility'', ''valarray'', ''variant'', ''vector'', ''version'',
      ''atomic'']"

text \<open>The lines a \<open>bufio.Scanner\<close> yields: the text split at line feeds, one trailing
  carriage return dropped from each line. (The scanner gives no empty last line; an empty
  line matches nothing below, so the difference is not seen.) The scanner's buffer holds at
  most \<open>bufio.MaxScanTokenSize\<close> = 65536 bytes: at a line of that many bytes or more (the
  line feed not counted) \<open>Scan\<close> fails for good, and \<open>discoverIncludes\<close>, which never
  reads \<open>sc.Err\<close>, returns what the lines before gave.\<close>

fun splitLines :: "string \<Rightarrow> string \<Rightarrow> string list" where
  "splitLines cur [] = [rev cur]"
| "splitLines cur (c # cs) =
     (if c = CHR 0x0A then rev cur # splitLines [] cs else splitLines (c # cur) cs)"

definition maxScanTokenSize :: int where
  "maxScanTokenSize = 65536"

definition scanLines :: "string \<Rightarrow> string list" where
  "scanLines b = takeWhile (\<lambda>l. int (length l) < maxScanTokenSize) (splitLines [] b)"

definition dropCR :: "string \<Rightarrow> string" where
  "dropCR l = (if l \<noteq> [] \<and> last l = CHR 0x0D then butlast l else l)"

text \<open>The class \<open>\s\<close> of Go's regular expressions.\<close>

definition reSpace :: "char \<Rightarrow> bool" where
  "reSpace c = (c \<in> set [CHR 0x09, CHR 0x0A, CHR 0x0C, CHR 0x0D, CHR '' ''])"

definition isDelim :: "char \<Rightarrow> bool" where
  "isDelim c = (c = CHR 0x22 \<or> c = CHR ''>'')"

text \<open>The expression \<open>^\s*#\s*include\s*["<]([^">]+)[">]\<close> on one line, giving the
  captured group. No step of it can match in two ways, so it is read left to right.\<close>

definition matchInclude :: "string \<Rightarrow> string option" where
  "matchInclude line =
     (case dropWhile reSpace line of
        [] \<Rightarrow> None
      | c # r2 \<Rightarrow>
          if c \<noteq> CHR ''#'' then None
          else
            (let r3 = dropWhile reSpace r2
             in if \<not> strings_HasPrefix r3 ''include'' then None
                else
                  (case dropWhile reSpace (drop 7 r3) of
                     [] \<Rightarrow> None
                   | q # r5 \<Rightarrow>
                       if q \<noteq> CHR 0x22 \<and> q \<noteq> CHR ''<'' then None
                       else
                         (let name = takeWhile (\<lambda>c. \<not> isDelim c) r5;
                              rest = dropWhile (\<lambda>c. \<not> isDelim c) r5
                          in if name = [] \<or> rest = [] then None else Some name))))"

definition discoverIncludes :: "fsys \<Rightarrow> string \<Rightarrow> string list" where
  "discoverIncludes fs file =
     (case readFile fs file of
        None \<Rightarrow> []
      | Some b \<Rightarrow> List.map_filter (\<lambda>l. matchInclude (dropCR l)) (scanLines b))"

text \<open>The includes of all files are put in a map used as a set, and the keys are read
  back in the map's order.\<close>

definition gatherAllIncludes :: "env \<Rightarrow> fsys \<Rightarrow> string list \<Rightarrow> string list" where
  "gatherAllIncludes e fs fls = mapOrder e (remdups (concat (map (discoverIncludes fs) fls)))"

definition isStdInclude :: "string \<Rightarrow> bool" where
  "isStdInclude header =
     (let h = strings_ToLower (strings_TrimSuffix header (filepath_Ext header));
          h = strings_TrimPrefix h ''c''
      in h \<in> set stdIncludesSkipList)"

text \<open>The four ways one pass of the loop of \<open>checkMissingHeaders\<close> ends: the three
  \<open>continue\<close> statements, in the order the loop reaches them, and the \<open>append\<close>.\<close>

datatype resolution = SatisfiedStandard | SatisfiedLocal | SatisfiedSystem | Missing

definition resolveHeader :: "fsys \<Rightarrow> Options \<Rightarrow> string \<Rightarrow> resolution" where
  "resolveHeader fs opts inc =
     (if isStdInclude inc then SatisfiedStandard
      else if list_ex (\<lambda>d. fileExists fs (filepath_Join d inc)) (IncludeDirs opts)
        then SatisfiedLocal
      else if list_ex (\<lambda>d. fileExists fs (filepath_Join d inc)) (SystemIncludeDirs opts)
        then SatisfiedSystem
      else Missing)"

fun checkMissingHeaders :: "fsys \<Rightarrow> string list \<Rightarrow> Options \<Rightarrow> string list" where
  "checkMissingHeaders fs [] opts = []"
| "checkMissingHeaders fs (inc # incs) opts =
     (case resolveHeader fs opts inc of
        Missing \<Rightarrow> inc # checkMissingHeaders fs incs opts
      | _ \<Rightarrow> checkMissingHeaders fs incs opts)"

definition discoverSystemIncludeDirs :: "fsys \<Rightarrow> string list" where
  "discoverSystemIncludeDirs fs =
     (let d = [''/usr/include'', ''/usr/local/include'']
      in if fileExists fs ''/usr/include/x86_64-linux-gnu''
         then d @ [''/usr/include/x86_64-linux-gnu''] else d)"

definition discoverLocalIncludeDirs :: "fsys \<Rightarrow> string list" where
  "discoverLocalIncludeDirs fs =
     (let d = [''include'', ''.'', ''common''];
          d = (if fileExists fs ''../include'' then d @ [''../include''] else d)
      in if fileExists fs ''../common'' then d @ [''../common''] else d)"

section \<open>Package hints\<close>

definition mapHeaderToPkg :: "string \<Rightarrow> string \<Rightarrow> string \<times> string" where
  "mapHeaderToPkg h dist =
     (let l = strings_ToLower h;
          ar = strings_Contains (strings_ToLower dist) ''arch''
      in if strings_Contains l ''boost/'' then
           (if ar then (''boost'', ''pacman -S boost'')
            else (''libboost-all-dev'', ''apt install libboost-all-dev''))
         else if strings_Contains l ''sdl2/'' then
           (if ar then (''sdl2'', ''pacman -S sdl2 sdl2_mixer'')
            else (''libsdl2-dev libsdl2-mixer-dev'', ''apt install libsdl2-dev libsdl2-mixer-dev''))
         else if strings_Contains l ''glm/'' then
           (if ar then (''glm'', ''pacman -S glm'')
            else (''libglm-dev'', ''apt install libglm-dev''))
         else if strings_Contains l ''gl.h'' \<or> strings_Contains l ''glu.h'' then
           (if ar then (''mesa'', ''pacman -S mesa'')
            else (''mesa-common-dev'', ''apt install mesa-common-dev''))
         else if strings_Contains l ''gtk/gtk.h'' then
           (if ar then (''gtk3'', ''pacman -S gtk3'')
            else (''libgtk-3-dev'', ''apt install libgtk-3-dev''))
         else if strings_Contains l ''vulkan/'' then
           (if ar then (''vulkan-devel'', ''pacman -S vulkan-devel'')
            else (''libvulkan-dev'', ''apt install libvulkan-dev''))
         else ([], []))"

definition haveCmd :: "env \<Rightarrow> string \<Rightarrow> bool" where
  "haveCmd e name = lookPath e name"

definition runShellCommand :: "env \<Rightarrow> string \<Rightarrow> world \<Rightarrow> (string \<times> error option) \<times> world" where
  "runShellCommand e cmd w =
     (let parts = strings_Fields cmd
      in if parts = [] then (([], Some EmptyCommand), w)
         else (case spawn e parts w of
                 (ok, b, w') \<Rightarrow> ((b, if ok then None else Some (CommandFailed parts)), w')))"

definition gatherPkgConfigFlags :: "env \<Rightarrow> string \<Rightarrow> string \<Rightarrow> world \<Rightarrow> (error + string) \<times> world" where
  "gatherPkgConfigFlags e pkg dist w =
     (if \<not> haveCmd e ''pkg-config'' then (Inl PkgConfigNotFound, w)
      else
        (let cmdStr = ''pkg-config --cflags --libs '' @ strings_ToLower pkg
         in case runShellCommand e cmdStr w of
              ((b, err), w') \<Rightarrow>
                if err \<noteq> None \<or> b = [] then (Inl (NoPkgConfigInfo pkg), w')
                else (Inr (strings_TrimSpace b), w')))"

definition mergeFlag :: "Options \<Rightarrow> string \<Rightarrow> Options" where
  "mergeFlag opts f =
     (if strings_HasPrefix f ''-I'' \<or> strings_HasPrefix f ''-D'' \<or> strings_HasPrefix f ''-F'' \<or>
         strings_HasPrefix f ''-framework'' \<or>
         (strings_HasPrefix f ''-W'' \<and> \<not> strings_HasPrefix f ''-Wl,'')
      then opts\<lparr>ExtraCFlags := ExtraCFlags opts @ [f]\<rparr>
      else if strings_HasPrefix f ''-l'' \<or> strings_HasPrefix f ''-L'' \<or>
              strings_HasPrefix f ''-Wl,'' \<or> strings_HasPrefix f ''-framework''
      then opts\<lparr>ExtraLDFlags := ExtraLDFlags opts @ [f]\<rparr>
      else opts)"

definition mergePkgConfigFlags :: "string \<Rightarrow> Options \<Rightarrow> Options" where
  "mergePkgConfigFlags flags opts = foldl mergeFlag opts (strings_Fields flags)"

text \<open>The loop of \<open>pkgDiscovery\<close> over the missing headers.\<close>

fun reportMissing :: "env \<Rightarrow> string list \<Rightarrow> Options \<Rightarrow> world \<Rightarrow> Options \<times> world" where
  "reportMissing e [] opts w = (opts, w)"
| "reportMissing e (h # hs) opts w =
     (let w1 = println (''   '' @ h) w
      in case mapHeaderToPkg h (DetectedDistro opts) of
           (pkg, cmd) \<Rightarrow>
             if pkg \<noteq> [] \<and> cmd \<noteq> [] then
               (let w2 = println (''    Possibly install with: '' @ cmd) w1
                in case gatherPkgConfigFlags e pkg (DetectedDistro opts) w2 of
                     (Inr flags, w3) \<Rightarrow>
                       if flags \<noteq> [] then reportMissing e hs (mergePkgConfigFlags flags opts) w3
                       else reportMissing e hs opts w3
                   | (Inl err, w3) \<Rightarrow> reportMissing e hs opts w3)
             else reportMissing e hs opts w1)"

text \<open>\<open>pkgDiscovery\<close>; the first component is true when it has called \<open>os.Exit(1)\<close>.\<close>

definition pkgDiscovery :: "env \<Rightarrow> Options \<Rightarrow> string list \<Rightarrow> world \<Rightarrow> bool \<times> Options \<times> world" where
  "pkgDiscovery e opts missing w =
     (case reportMissing e missing opts (println ''Missing headers:'' w) of
        (opts', w') \<Rightarrow>
          if \<not> Sloppy opts'
          then (True, opts',
                println (CHR 0x0A # ''Cannot proceed unless sloppy mode is used or you fix missing headers.'') w')
          else (False, opts',
                println ''Continuing in sloppy mode, ignoring missing headers.'' w'))"


section \<open>Staleness cache\<close>

definition loadCache :: "world \<Rightarrow> CompileCache" where
  "loadCache w = (case cxxcache w of Stored m \<Rightarrow> m | _ \<Rightarrow> Map.empty)"

definition saveCache :: "CompileCache \<Rightarrow> world \<Rightarrow> world" where
  "saveCache cc w = w\<lparr>cxxcache := Stored cc\<rparr>"

definition needsRebuild :: "fsys \<Rightarrow> string \<Rightarrow> string \<Rightarrow> CompileCache \<Rightarrow> bool" where
  "needsRebuild fs src obj cc =
     (if \<not> fileExists fs obj then True
      else
        (case fs src of
           None \<Rightarrow> True
         | Some si \<Rightarrow>
             (case fs obj of
                None \<Rightarrow> True
              | Some oi \<Rightarrow>
                  if mtime oi < mtime si then True
                  else
                    (let old = timestampOf cc src;
                         newt = unixSeconds (mtime si)
                     in old \<noteq> newt))))"

definition updateTimestamp :: "string \<Rightarrow> CompileCache \<Rightarrow> world \<Rightarrow> CompileCache \<times> world" where
  "updateTimestamp src cc w =
     (case files w src of
        None \<Rightarrow> (cc, w)
      | Some i \<Rightarrow>
          (cc(src \<mapsto> unixSeconds (mtime i)),
           w\<lparr>clog := clog w @ [Updated src (unixSeconds (mtime i))]\<rparr>))"

section \<open>Build planner\<close>

definition removeFromSlice :: "string list \<Rightarrow> string \<Rightarrow> string list" where
  "removeFromSlice sl val = filter (\<lambda>s. s \<noteq> val) sl"

definition compileFlags :: "Options \<Rightarrow> string" where
  "compileFlags opts =
     (let baseFlags =
            [''-pipe'', ''-fPIC'', ''-fno-plt'', ''-fstack-protector-strong'', ''-Wall'',
             ''-Wshadow'', ''-Wpedantic'', ''-Wno-parentheses'', ''-Wfatal-errors'', ''-Wvla'',
             ''-Wignored-qualifiers''];
          baseFlags =
            (if Debug opts then removeFromSlice baseFlags ''-O2'' @ [''-O0'', ''-g'']
             else if Opt opts then baseFlags @ [''-O2'']
             else baseFlags);
          baseFlags = (if Strict opts then baseFlags @ [''-Wextra'', ''-Wconversion''] else baseFlags);
          baseFlags = (if Sloppy opts then baseFlags @ [''-w'', ''-fpermissive''] else baseFlags)
      in strings_Join baseFlags '' '')"

definition joinExtraCFlags :: "string list \<Rightarrow> string" where
  "joinExtraCFlags flags = (if length flags = 0 then [] else strings_Join flags '' '')"

definition joinExtraLDFlags :: "string list \<Rightarrow> string" where
  "joinExtraLDFlags ldflags = (if length ldflags = 0 then [] else strings_Join ldflags '' '')"

text \<open>\<open>runCommand\<close>: the line is printed, split into fields and started as a process,
  wrapped in a container when cross-compiling. An empty line starts nothing and is no
  error.\<close>

definition runCommand :: "env \<Rightarrow> string \<Rightarrow> Options \<Rightarrow> world \<Rightarrow> error option \<times> world" where
  "runCommand e line opts w =
     (let w1 = println line w
      in if Win64Docker opts then
           (let p = strings_Fields line
            in if length p = 0 then (None, w1)
               else
                 (let img = ''jhasse/mingw:latest'';
                      a = [''run'', ''-v'', cwd e @ '':/home'', ''-w'', ''/home'', ''--rm'', img] @ p;
                      w2 = println (''docker '' @ strings_Join a '' '') w1
                  in case spawn e (''docker'' # a) w2 of
                       (ok, b, w3) \<Rightarrow> (if ok then None else Some (CommandFailed (''docker'' # a)), w3)))
         else
           (let p = strings_Fields line
            in if length p = 0 then (None, w1)
               else (case spawn e p w1 of
                       (ok, b, w3) \<Rightarrow> (if ok then None else Some (CommandFailed p), w3))))"

definition singleStepLine :: "env \<Rightarrow> Options \<Rightarrow> string \<Rightarrow> string" where
  "singleStepLine e opts source =
     (let on = ensureExeSuffix e (OutputName opts) (Win64Docker opts);
          flags = compileFlags opts;
          sf = (if Std opts \<noteq> [] then ''-std='' @ Std opts else []);
          cf = joinExtraCFlags (ExtraCFlags opts);
          linkFlags = joinExtraLDFlags (ExtraLDFlags opts);
          line = CXX opts @ '' '' @ sf @ '' '' @ flags @ '' '' @ cf @ '' '' @ source @ '' -o '' @ on
      in if linkFlags \<noteq> [] then line @ '' '' @ linkFlags else line)"

definition singleStepBuild :: "env \<Rightarrow> Options \<Rightarrow> string \<Rightarrow> world \<Rightarrow> error option \<times> Options \<times> world" where
  "singleStepBuild e opts source w =
     (let on = ensureExeSuffix e (OutputName opts) (Win64Docker opts);
          line = singleStepLine e opts source
      in case runCommand e line opts (println line w) of
           (Some err, w') \<Rightarrow> (Some err, opts, w')
         | (None, w') \<Rightarrow> (None, opts\<lparr>OutputName := on\<rparr>, w'))"

definition buildCompileCmd :: "Options \<Rightarrow> string \<Rightarrow> string \<Rightarrow> string" where
  "buildCompileCmd opts src obj =
     (let flags = compileFlags opts;
          sf = (if Std opts \<noteq> [] then ''-std='' @ Std opts else []);
          cf = joinExtraCFlags (ExtraCFlags opts)
      in CXX opts @ '' '' @ sf @ '' '' @ flags @ '' '' @ cf @ '' -c '' @ src @ '' -o '' @ obj)"

text \<open>The object of a source, as the first two lines of \<open>compileOne\<close> derive it.\<close>

definition objectOf :: "string \<Rightarrow> string" where
  "objectOf src =
     (let ext = filepath_Ext src
      in strings_TrimSuffix (filepath_Base src) ext @ ''.o'')"

definition compileOne ::
  "env \<Rightarrow> Options \<Rightarrow> CompileCache \<Rightarrow> string \<Rightarrow> world \<Rightarrow> (string \<times> error option) \<times> CompileCache \<times> world"
where
  "compileOne e opts cc src w =
     (let obj = objectOf src;
          w0 = w\<lparr>clog := clog w @ [Evaluated src]\<rparr>
      in if needsRebuild (files w) src obj cc then
           (let line = buildCompileCmd opts src obj
            in case runCommand e line opts w0 of
                 (Some err, w1) \<Rightarrow> ((obj, Some err), cc, w1)
               | (None, w1) \<Rightarrow>
                   (case updateTimestamp src cc w1 of (cc', w2) \<Rightarrow> ((obj, None), cc', w2)))
         else ((obj, None), cc, w0))"

definition linkLine :: "Options \<Rightarrow> string list \<Rightarrow> string \<Rightarrow> string" where
  "linkLine opts objs outp =
     (let flags = compileFlags opts;
          linkFlags = joinExtraLDFlags (ExtraLDFlags opts);
          line = CXX opts @ '' '' @ flags @ '' '' @ strings_Join objs '' '' @ '' -o '' @ outp
      in if linkFlags \<noteq> [] then line @ '' '' @ linkFlags else line)"

definition linkObjects :: "env \<Rightarrow> Options \<Rightarrow> string list \<Rightarrow> string \<Rightarrow> world \<Rightarrow> error option \<times> world" where
  "linkObjects e opts objs outp w = runCommand e (linkLine opts objs outp) opts w"

text \<open>The loop of \<open>compileAndLink\<close> over \<open>o.Sources\<close>: the objects compiled so far are
  returned in order, or the first error.\<close>

fun compileSources ::
  "env \<Rightarrow> Options \<Rightarrow> string list \<Rightarrow> CompileCache \<Rightarrow> world \<Rightarrow> (error + string list) \<times> CompileCache \<times> world"
where
  "compileSources e opts [] cc w = (Inr [], cc, w)"
| "compileSources e opts (s # ss) cc w =
     (if \<not> Test opts \<and> isTestSource s then compileSources e opts ss cc w
      else
        (case compileOne e opts cc s w of
           ((obj, Some err), cc', w') \<Rightarrow> (Inl err, cc', w')
         | ((obj, None), cc', w') \<Rightarrow>
             (case compileSources e opts ss cc' w' of
                (Inr objs, cc'', w'') \<Rightarrow> (Inr (obj # objs), cc'', w'')
              | (Inl err, cc'', w'') \<Rightarrow> (Inl err, cc'', w''))))"

definition compileAndLink ::
  "env \<Rightarrow> Options \<Rightarrow> CompileCache \<Rightarrow> world \<Rightarrow> error option \<times> Options \<times> CompileCache \<times> world"
where
  "compileAndLink e opts cc w =
     (case compileSources e opts (Sources opts) cc w of
        (Inl err, cc', w') \<Rightarrow> (Some err, opts, cc', w')
      | (Inr objs, cc', w') \<Rightarrow>
          (let on = ensureExeSuffix e (OutputName opts) (Win64Docker opts)
           in case linkObjects e opts objs on w' of
                (Some err, w'') \<Rightarrow> (Some err, opts, cc', w'')
              | (None, w'') \<Rightarrow> (None, opts\<lparr>OutputName := on\<rparr>, cc', w'')))"

text \<open>The first loop of \<open>buildAndRunTests\<close>: the objects of the sources that are not tests.\<close>

fun compileNormal ::
  "env \<Rightarrow> Options \<Rightarrow> string list \<Rightarrow> CompileCache \<Rightarrow> world \<Rightarrow> (error + string list) \<times> CompileCache \<times> world"
where
  "compileNormal e opts [] cc w = (Inr [], cc, w)"
| "compileNormal e opts (s # ss) cc w =
     (if \<not> isTestSource s then
        (case compileOne e opts cc s w of
           ((obj, Some err), cc', w') \<Rightarrow> (Inl err, cc', w')
         | ((obj, None), cc', w') \<Rightarrow>
             (case compileNormal e opts ss cc' w' of
                (Inr objs, cc'', w'') \<Rightarrow> (Inr (obj # objs), cc'', w'')
              | (Inl err, cc'', w'') \<Rightarrow> (Inl err, cc'', w'')))
      else compileNormal e opts ss cc w)"

text \<open>The second loop of \<open>buildAndRunTests\<close>, over \<open>o.TestSources\<close>: compile, link with
  the objects of the first loop, run; the first error ends the loop.\<close>

fun runTests ::
  "env \<Rightarrow> Options \<Rightarrow> string list \<Rightarrow> string list \<Rightarrow> CompileCache \<Rightarrow> world \<Rightarrow> error option \<times> CompileCache \<times> world"
where
  "runTests e opts normalObjs [] cc w = (None, cc, w)"
| "runTests e opts normalObjs (s # ss) cc w =
     (case compileOne e opts cc s w of
        ((obj, Some err), cc', w') \<Rightarrow> (Some err, cc', w')
      | ((obj, None), cc', w') \<Rightarrow>
          (let exe = ensureExeSuffix e (strings_TrimSuffix obj ''.o'') (Win64Docker opts)
           in case linkObjects e opts (obj # normalObjs) exe w' of
                (Some err, w1) \<Rightarrow> (Some err, cc', w1)
              | (None, w1) \<Rightarrow>
                  (let w2 = println (''Running test: '' @ exe) w1
                   in if Win64Docker opts then
                        runTests e opts normalObjs ss cc'
                          (println ''Cannot run Windows .exe test under Docker cross-compile.'' w2)
                      else
                        (case spawn e [''./'' @ exe] w2 of
                           (ok, b, w3) \<Rightarrow>
                             if ok then runTests e opts normalObjs ss cc' w3
                             else (Some (CommandFailed [''./'' @ exe]), cc', w3)))))"

definition buildAndRunTests ::
  "env \<Rightarrow> Options \<Rightarrow> CompileCache \<Rightarrow> world \<Rightarrow> error option \<times> CompileCache \<times> world"
where
  "buildAndRunTests e opts cc w =
     (case compileNormal e opts (Sources opts) cc w of
        (Inl err, cc', w') \<Rightarrow> (Some err, cc', w')
      | (Inr normalObjs, cc', w') \<Rightarrow> runTests e opts normalObjs (TestSources opts) cc' w')"


section \<open>The run\<close>

text \<open>The walk of \<open>removeArtifacts\<close>: every entry that is not a directory and whose name
  ends in \<open>.o\<close> or \<open>.obj\<close>, hidden directories included.\<close>

fun walkObjects :: "string \<Rightarrow> dirent \<Rightarrow> string list" where
  "walkObjects path (File n) =
     (let l = strings_ToLower n
      in if strings_HasSuffix l ''.o'' \<or> strings_HasSuffix l ''.obj'' then [path] else [])"
| "walkObjects path (Dir n kids) =
     concat (map (\<lambda>k. walkObjects (filepath_Join path (entName k)) k) kids)"

definition removeFile :: "string \<Rightarrow> world \<Rightarrow> world" where
  "removeFile p w = (println (''Removing '' @ p) w)\<lparr>files := (files w)(p := None)\<rparr>"

definition removeArtifacts :: "env \<Rightarrow> Options \<Rightarrow> world \<Rightarrow> world" where
  "removeArtifacts e opts w =
     (let w1 = foldl (\<lambda>w p. removeFile p w) w (walkObjects ''.'' (Dir ''.'' (entries e)));
          w2 = (if OutputName opts \<noteq> [] \<and> fileExists (files w1) (OutputName opts)
                then removeFile (OutputName opts) w1 else w1)
      in case cxxcache w2 of
           NoCacheFile \<Rightarrow> w2
         | _ \<Rightarrow> (println ''Removing .cxxcache'' w2)\<lparr>cxxcache := NoCacheFile\<rparr>)"

text \<open>Lines 88 to 110 of \<open>main\<close>: the sources are split into tests and the rest, the
  main source is looked for and the name of the output is chosen.\<close>

definition normalOf :: "string list \<Rightarrow> string list" where
  "normalOf srcs = filter (\<lambda>s. \<not> isTestSource s) srcs"

definition testsOf :: "string list \<Rightarrow> string list" where
  "testsOf srcs = filter isTestSource srcs"

definition planSources :: "env \<Rightarrow> fsys \<Rightarrow> Options \<Rightarrow> string list \<Rightarrow> Options" where
  "planSources e fs opts srcs =
     (let opts1 = opts\<lparr>Sources := srcs, TestSources := testsOf srcs,
                       MainSource := findMainSource fs srcs\<rparr>
      in if MainSource opts1 \<noteq> [] then
           opts1\<lparr>OutputName := guessOutputNameFromMain e (MainSource opts1) (Win64Docker opts1)\<rparr>
         else if length (normalOf srcs) > 0 then
           opts1\<lparr>OutputName :=
             (if Win64Docker opts1 then ''main'' @ ''.exe''
              else if goos e = ''windows'' then ''main'' @ ''.exe''
              else ''main'')\<rparr>
         else opts1)"

text \<open>Lines 153 to 166 of \<open>main\<close>: the optional run of the artifact and the last
  message.\<close>

definition runStep :: "env \<Rightarrow> Options \<Rightarrow> world \<Rightarrow> outcome \<times> world" where
  "runStep e opts w =
     (if Run opts \<and> OutputName opts \<noteq> [] then
        (let w1 = println (''Running: '' @ OutputName opts) w
         in if Win64Docker opts then
              (Returned,
               println (''Build complete on '' @ DetectedDistro opts)
                 (println ''Cross-compiled .exe can't be run automatically under Docker.'' w1))
            else
              (case spawn e [''./'' @ OutputName opts] w1 of
                 (ok, b, w2) \<Rightarrow>
                   if ok then (Returned, println (''Build complete on '' @ DetectedDistro opts) w2)
                   else (Fatal [] (CommandFailed [''./'' @ OutputName opts]), w2)))
      else (Returned, println (''Build complete on '' @ DetectedDistro opts) w))"

text \<open>Lines 147 to 151: the tests, when test mode is on and there is a test source.\<close>

definition testStep :: "env \<Rightarrow> Options \<Rightarrow> string list \<Rightarrow> CompileCache \<Rightarrow> world \<Rightarrow> outcome \<times> world" where
  "testStep e opts testSources cc w =
     (if Test opts \<and> length testSources > 0 then
        (case buildAndRunTests e opts cc w of
           (Some err, cc', w') \<Rightarrow> (Fatal ''Test error:'' err, w')
         | (None, cc', w') \<Rightarrow> runStep e opts w')
      else runStep e opts w)"

text \<open>Lines 133 to 145: the cache is loaded and one of the two build strategies runs.\<close>

definition singleStep :: "Options \<Rightarrow> string list \<Rightarrow> string list \<Rightarrow> bool" where
  "singleStep opts normalSources testSources =
     (length normalSources = 1 \<and> length testSources = 0 \<and> \<not> Test opts)"

definition buildStep ::
  "env \<Rightarrow> Options \<Rightarrow> string list \<Rightarrow> string list \<Rightarrow> world \<Rightarrow> outcome \<times> world"
where
  "buildStep e opts normalSources testSources w =
     (let cc = loadCache w
      in if singleStep opts normalSources testSources then
           (case singleStepBuild e opts (normalSources ! 0) w of
              (Some err, opts', w') \<Rightarrow> (Fatal ''Build error:'' err, w')
            | (None, opts', w') \<Rightarrow> testStep e opts' testSources cc w')
         else
           (case compileAndLink e opts cc w of
              (Some err, opts', cc', w') \<Rightarrow> (Fatal ''Build error:'' err, w')
            | (None, opts', cc', w') \<Rightarrow> testStep e opts' testSources cc' (saveCache cc' w')))"

text \<open>Lines 117 to 131: the include directories, the headers, the package hints. The
  project file that \<open>generateProFile\<close> writes is outside the model: the run ends there and
  nothing reads the file.\<close>

definition headerStep ::
  "env \<Rightarrow> Options \<Rightarrow> string list \<Rightarrow> string list \<Rightarrow> world \<Rightarrow> outcome \<times> world"
where
  "headerStep e opts normalSources testSources w =
     (let opts1 = opts\<lparr>SystemIncludeDirs := discoverSystemIncludeDirs (files w)\<rparr>;
          opts2 = opts1\<lparr>IncludeDirs := discoverLocalIncludeDirs (files w)\<rparr>;
          incls = gatherAllIncludes e (files w) (Sources opts2);
          missing = checkMissingHeaders (files w) incls opts2
      in case (if length missing > 0 then pkgDiscovery e opts2 missing w else (False, opts2, w)) of
           (exited, opts3, w3) \<Rightarrow>
             if exited then (Exit1, w3)
             else if Pro opts3 then (Returned, w3)
             else buildStep e opts3 normalSources testSources w3)"

definition main :: "env \<Rightarrow> string list \<Rightarrow> world \<Rightarrow> outcome \<times> world" where
  "main e args w =
     (let opts = parseArgs args
      in if Version opts then (Returned, println ''cxx2 version 2.0.7'' w)
         else
           (let opts = adjustCompiler (opts\<lparr>DetectedDistro := distro e\<rparr>);
                srcs = discoverSources e
            in if length srcs = 0 \<and> \<not> Clean opts then (Returned, println ''No sources found.'' w)
               else
                 (let opts = planSources e (files w) opts srcs
                  in if Clean opts then (Returned, removeArtifacts e opts w)
                     else headerStep e opts (normalOf srcs) (testsOf srcs) w)))"

section \<open>The specification's wording and the scenarios\<close>

text \<open>Staleness as the specification words it: the object is absent, or it is older
  than the source, or the cached time stamp differs from the source's time.\<close>

definition staleBySpec :: "fsys \<Rightarrow> string \<Rightarrow> string \<Rightarrow> CompileCache \<Rightarrow> bool" where
  "staleBySpec fs src obj cc =
     (\<not> fileExists fs obj \<or>
      (case fs obj of None \<Rightarrow> False
       | Some oi \<Rightarrow> (case fs src of None \<Rightarrow> False | Some si \<Rightarrow> mtime oi < mtime si)) \<or>
      (case fs src of None \<Rightarrow> False | Some si \<Rightarrow> timestampOf cc src \<noteq> unixSeconds (mtime si)))"

text \<open>An object whose source cannot be stat'ed: \<open>x.cpp\<close> is a link to nothing.\<close>

definition danglingFs :: fsys where
  "danglingFs = [''x.o'' \<mapsto> \<lparr>regular = True, mtime = 5000000000, content = []\<rparr>]"

definition freshFs :: fsys where
  "freshFs = [''a.cpp'' \<mapsto> \<lparr>regular = True, mtime = 7000000001, content = []\<rparr>,
              ''a.o'' \<mapsto> \<lparr>regular = True, mtime = 7000000002, content = []\<rparr>]"

text \<open>The argument vector \<open>runCommand\<close> starts for a line: its fields, behind the container
  command when cross-compiling.\<close>

definition argvOf :: "env \<Rightarrow> Options \<Rightarrow> string \<Rightarrow> string list" where
  "argvOf e opts line =
     (if Win64Docker opts
      then ''docker'' #
           [''run'', ''-v'', cwd e @ '':/home'', ''-w'', ''/home'', ''--rm'', ''jhasse/mingw:latest''] @
           strings_Fields line
      else strings_Fields line)"

definition compileArgv :: "env \<Rightarrow> Options \<Rightarrow> string \<Rightarrow> string list" where
  "compileArgv e opts src = argvOf e opts (buildCompileCmd opts src (objectOf src))"

text \<open>The options of \<open>main\<close> at line 110, after the arguments, the compiler choice and the
  classification of the sources.\<close>

definition plannedOptions :: "env \<Rightarrow> string list \<Rightarrow> fsys \<Rightarrow> Options" where
  "plannedOptions e args fs =
     planSources e fs (adjustCompiler ((parseArgs args)\<lparr>DetectedDistro := distro e\<rparr>))
       (discoverSources e)"

text \<open>The headers \<open>main\<close> finds missing at line 121.\<close>

definition headerOptions :: "env \<Rightarrow> string list \<Rightarrow> fsys \<Rightarrow> Options" where
  "headerOptions e args fs =
     (plannedOptions e args fs)
       \<lparr>SystemIncludeDirs := discoverSystemIncludeDirs fs, IncludeDirs := discoverLocalIncludeDirs fs\<rparr>"

definition missingHeaders :: "env \<Rightarrow> string list \<Rightarrow> fsys \<Rightarrow> string list" where
  "missingHeaders e args fs =
     checkMissingHeaders fs (gatherAllIncludes e fs (discoverSources e)) (headerOptions e args fs)"

text \<open>A source is fresh when \<open>needsRebuild\<close> is false for it and its object.\<close>

definition fresh :: "fsys \<Rightarrow> CompileCache \<Rightarrow> string \<Rightarrow> bool" where
  "fresh fs cc s = (\<not> needsRebuild fs s (objectOf s) cc)"

text \<open>What the claims about repeated runs assume of the processes the program starts.
  No process changes what \<open>os.Stat\<close> sees of a source, and none removes the object of a
  source or makes it older (\<open>stable\<close>). A compile command that succeeds leaves the source
  in place and its object a regular file that is not older than the source.\<close>

definition stable :: "string list \<Rightarrow> fsys \<Rightarrow> fsys \<Rightarrow> bool" where
  "stable srcs fs fs' =
     (\<forall>s\<in>set srcs.
        fs' s = fs s \<and>
        (case fs (objectOf s) of
           None \<Rightarrow> True
         | Some oi \<Rightarrow>
             regular oi \<longrightarrow>
             (case fs' (objectOf s) of
                None \<Rightarrow> False
              | Some oi' \<Rightarrow> regular oi' \<and> mtime oi \<le> mtime oi')))"

definition compiled :: "fsys \<Rightarrow> string \<Rightarrow> bool" where
  "compiled fs s =
     (case fs s of
        None \<Rightarrow> False
      | Some si \<Rightarrow>
          (case fs (objectOf s) of
             None \<Rightarrow> False
           | Some oi \<Rightarrow> regular oi \<and> mtime si \<le> mtime oi))"

definition toolsOK :: "env \<Rightarrow> string list \<Rightarrow> bool" where
  "toolsOK e srcs =
     ((\<forall>argv fs. stable srcs fs (snd (snd (exec e argv fs)))) \<and>
      (\<forall>opts fs s. s \<in> set srcs \<longrightarrow> fst (exec e (compileArgv e opts s) fs) \<longrightarrow>
         compiled (snd (snd (exec e (compileArgv e opts s) fs))) s))"

text \<open>A tool chain for the scenarios. A command that ends in \<open>-c src -o obj\<close> is a
  compilation: it fails when the source cannot be read or the object's name does not end
  in \<open>.o\<close>, and otherwise writes the object, newer than the source and than the object
  it replaces. Every other process succeeds and leaves the files alone.\<close>

definition toolExec :: "string list \<Rightarrow> fsys \<Rightarrow> bool \<times> string \<times> fsys" where
  "toolExec argv fs =
     (case rev argv of
        obj # dasho # s # dashc # rest \<Rightarrow>
          if dasho = ''-o'' \<and> dashc = ''-c'' then
            (case readFile fs s of
               None \<Rightarrow> (False, [], fs)
             | Some b \<Rightarrow>
                 if strings_HasSuffix obj ''.o'' then
                   (True, [],
                    fs(obj \<mapsto>
                      \<lparr>regular = True,
                       mtime = 1 + max (case fs s of None \<Rightarrow> 0 | Some si \<Rightarrow> mtime si)
                                       (case fs obj of None \<Rightarrow> 0 | Some oi \<Rightarrow> mtime oi),
                       content = ''object of '' @ s\<rparr>))
                 else (False, [], fs))
          else (True, [], fs)
      | _ \<Rightarrow> (True, [], fs))"

definition sourceFile :: "int \<Rightarrow> string \<Rightarrow> finfo" where
  "sourceFile t b = \<lparr>regular = True, mtime = t, content = b\<rparr>"

definition emptyWorld :: "fsys \<Rightarrow> world" where
  "emptyWorld fs = \<lparr>files = fs, cxxcache = NoCacheFile, out = [], procs = [], clog = []\<rparr>"

text \<open>Scenario A: the directory \<open>/home/user/hello\<close> holds \<open>main.cpp\<close> and nothing else.\<close>

definition envA :: env where
  "envA = \<lparr>cwd = ''/home/user/hello'', goos = ''linux'', distro = ''Debian'',
            entries = [File ''main.cpp''], lookPath = (\<lambda>n. False), mapOrder = (\<lambda>xs. xs),
            exec = toolExec\<rparr>"

definition worldA :: world where
  "worldA = emptyWorld [''main.cpp'' \<mapsto> sourceFile 1700000000000000000 ''int main() { return 0; }'']"

text \<open>Scenario B: the directory \<open>/home/user/proj\<close> holds \<open>main.cpp\<close>, \<open>util.cpp\<close> and
  \<open>util_test.cpp\<close>, and no objects yet.\<close>

definition envB :: env where
  "envB = \<lparr>cwd = ''/home/user/proj'', goos = ''linux'', distro = ''Debian'',
            entries = [File ''main.cpp'', File ''util.cpp'', File ''util_test.cpp''],
            lookPath = (\<lambda>n. False), mapOrder = (\<lambda>xs. xs), exec = toolExec\<rparr>"

definition worldB :: world where
  "worldB = emptyWorld
     [''main.cpp'' \<mapsto> sourceFile 1700000000000000000 ''int main() { return 0; }'',
      ''util.cpp'' \<mapsto> sourceFile 1700000001000000000 ''int twice(int x) { return 2 * x; }'',
      ''util_test.cpp'' \<mapsto> sourceFile 1700000002000000000 ''int main() { return 0; }'']"

text \<open>Two sources with one base name, in two directories.\<close>

definition envC :: env where
  "envC = \<lparr>cwd = ''/home/user/twin'', goos = ''linux'', distro = ''Debian'',
            entries = [Dir ''a'' [File ''x.cpp''], Dir ''b'' [File ''x.cpp'']],
            lookPath = (\<lambda>n. False), mapOrder = (\<lambda>xs. xs), exec = toolExec\<rparr>"

definition worldC :: world where
  "worldC = emptyWorld
     [''a/x.cpp'' \<mapsto> sourceFile 1700000000000000000 ''int one() { return 1; }'',
      ''b/x.cpp'' \<mapsto> sourceFile 1700000001000000000 ''int main() { return 0; }'']"

text \<open>A satisfied header as the specification words it: the name without its extension,
  in lower case and without one leading \<open>c\<close>, is on the allow-list; or the file exists under
  a local include directory; or under a system include directory.\<close>

definition satisfiedBySpec :: "fsys \<Rightarrow> Options \<Rightarrow> string \<Rightarrow> bool" where
  "satisfiedBySpec fs opts h =
     (strings_TrimPrefix (strings_ToLower (strings_TrimSuffix h (filepath_Ext h))) ''c''
        \<in> set stdIncludesSkipList \<or>
      list_ex (\<lambda>d. fileExists fs (filepath_Join d h)) (IncludeDirs opts) \<or>
      list_ex (\<lambda>d. fileExists fs (filepath_Join d h)) (SystemIncludeDirs opts))"

text \<open>A header \<open>util.h\<close> that is both in the project's \<open>include\<close> directory and in
  \<open>/usr/include\<close>.\<close>

definition headerFs :: fsys where
  "headerFs = [''include/util.h'' \<mapsto> sourceFile 1 [], ''/usr/include/util.h'' \<mapsto> sourceFile 1 [],
               ''/usr/include/zlib.h'' \<mapsto> sourceFile 1 []]"

definition headerOpts :: Options where
  "headerOpts = defaultOptions\<lparr>IncludeDirs := discoverLocalIncludeDirs headerFs,
                               SystemIncludeDirs := discoverSystemIncludeDirs headerFs\<rparr>"

text \<open>The options without the two flag lists that the package hints extend, and the
  package query the program starts for a missing header.\<close>

definition coreOptions :: "Options \<Rightarrow> Options" where
  "coreOptions opts = opts\<lparr>ExtraCFlags := [], ExtraLDFlags := []\<rparr>"

definition pkgQuery :: "string \<Rightarrow> string \<Rightarrow> string list" where
  "pkgQuery dist h =
     strings_Fields (''pkg-config --cflags --libs '' @ strings_ToLower (fst (mapHeaderToPkg h dist)))"

text \<open>Scenario C: the one source includes a Boost header that no directory holds.\<close>

definition envH :: env where
  "envH = \<lparr>cwd = ''/home/user/cast'', goos = ''linux'', distro = ''Arch Linux'',
            entries = [File ''main.cpp''], lookPath = (\<lambda>n. False), mapOrder = (\<lambda>xs. xs),
            exec = toolExec\<rparr>"

definition worldH :: world where
  "worldH = emptyWorld
     [''main.cpp'' \<mapsto> sourceFile 1700000000000000000
        (''#include <boost/lexical_cast.hpp>'' @ [CHR 0x0A] @ ''int main() { return 0; }'')]"

text \<open>The entries of the cache record that concern one source.\<close>

definition isEvalOf :: "string \<Rightarrow> cache_event \<Rightarrow> bool" where
  "isEvalOf s ev = (case ev of Evaluated s' \<Rightarrow> s' = s | Updated s' t \<Rightarrow> False)"

definition isUpdateOf :: "string \<Rightarrow> cache_event \<Rightarrow> bool" where
  "isUpdateOf s ev = (case ev of Evaluated s' \<Rightarrow> False | Updated s' t \<Rightarrow> s' = s)"

section \<open>Lemmas about the library functions and the classifier\<close>

subsection \<open>Strings and paths\<close>

lemma HasSuffix_last:
  "strings_HasSuffix l suf \<Longrightarrow> suf \<noteq> [] \<Longrightarrow> l \<noteq> [] \<and> last l = last suf"
proof -
  assume h: "strings_HasSuffix l suf" and ne: "suf \<noteq> []"
  from h have len: "length suf \<le> length l" and d: "drop (length l - length suf) l = suf"
    by (simp_all add: strings_HasSuffix_def)
  from ne len have lne: "l \<noteq> []" by auto
  have "l = take (length l - length suf) l @ suf" using d by (metis append_take_drop_id)
  then have "last l = last suf" using ne by (metis last_appendR)
  with lne show ?thesis by simp
qed

lemma lowerChar_slash: "lowerChar c = CHR ''/'' \<Longrightarrow> c = CHR ''/''"
  by (simp add: lowerChar_def split: if_splits)

lemma hasSourceSuffix_last:
  assumes "hasSourceSuffix s"
  shows "s \<noteq> [] \<and> last s \<noteq> CHR ''/''"
proof -
  from assms obtain suf where suf: "strings_HasSuffix (strings_ToLower s) suf"
      and mem: "suf \<in> {''.c'', ''.cc'', ''.cpp'', ''.cxx''}"
    by (auto simp: hasSourceSuffix_def Let_def)
  from mem have ne: "suf \<noteq> []" and ls: "last suf \<noteq> CHR ''/''" by auto
  from HasSuffix_last [OF suf ne] have l: "strings_ToLower s \<noteq> []"
      and ll: "last (strings_ToLower s) = last suf" by simp_all
  from l have sne: "s \<noteq> []" by (simp add: strings_ToLower_def)
  then have "last (strings_ToLower s) = lowerChar (last s)"
    by (simp add: strings_ToLower_def last_map)
  with ll ls have "lowerChar (last s) \<noteq> CHR ''/''" by simp
  then have "last s \<noteq> CHR ''/''" by (auto simp: lowerChar_def)
  with sne show ?thesis by simp
qed

lemma lastElem_idem: "lastElem (lastElem p) = lastElem p"
  by (simp add: lastElem_def)

lemma lastElem_no_slash: "CHR ''/'' \<notin> set (lastElem p)"
  by (auto simp: lastElem_def dest: set_takeWhileD)

lemma Base_of_file:
  assumes "s \<noteq> []" "last s \<noteq> CHR ''/''"
  shows "filepath_Base s = lastElem s"
proof -
  from assms obtain c cs where r: "rev s = c # cs" and c: "c \<noteq> CHR ''/''"
    by (cases "rev s") (auto simp: last_rev [symmetric] simp del: last_rev)
  have "dropWhile (\<lambda>c. c = CHR ''/'') (rev s) = rev s" using r c by simp
  moreover have "lastElem s \<noteq> []" using r c by (simp add: lastElem_def)
  ultimately show ?thesis using assms(1) by (simp add: filepath_Base_def Let_def)
qed

lemma Ext_lastElem: "filepath_Ext (lastElem p) = filepath_Ext p"
  by (simp add: filepath_Ext_def lastElem_idem)

lemma objectOf_Base:
  assumes "s \<noteq> []" "last s \<noteq> CHR ''/''"
  shows "objectOf s =
     strings_TrimSuffix (filepath_Base s) (filepath_Ext (filepath_Base s)) @ ''.o''"
  using Base_of_file [OF assms] by (simp add: objectOf_def Ext_lastElem)

lemma TrimSuffix_set: "set (strings_TrimSuffix s suf) \<subseteq> set s"
  by (auto simp: strings_TrimSuffix_def dest: in_set_takeD)

lemma objectOf_no_slash:
  assumes "s \<noteq> []" "last s \<noteq> CHR ''/''"
  shows "CHR ''/'' \<notin> set (objectOf s)"
proof -
  have "set (objectOf s) \<subseteq> set (lastElem s) \<union> set ''.o''"
    using Base_of_file [OF assms] TrimSuffix_set [of "lastElem s" "filepath_Ext s"]
    by (auto simp: objectOf_def)
  then show ?thesis using lastElem_no_slash [of s] by auto
qed

lemma walkSources_suffix: "s \<in> set (walkSources p d) \<Longrightarrow> hasSourceSuffix s"
  by (induction p d rule: walkSources.induct) (auto split: if_splits)

lemma discoverSources_suffix: "s \<in> set (discoverSources e) \<Longrightarrow> hasSourceSuffix s"
  unfolding discoverSources_def by (rule walkSources_suffix)

subsection \<open>Classifier\<close>

lemma isMainName_not_test: "isMainName s \<Longrightarrow> \<not> isTestSource s"
  by (auto simp: isMainName_def isTestSource_def Let_def strings_HasSuffix_def)

lemma find_SomeD: "find P xs = Some x \<Longrightarrow> x \<in> set xs \<and> P x"
  by (induction xs) (auto split: if_splits)

lemma findMainSource_cases:
  "findMainSource fs srcs = [] \<or>
   (findMainSource fs srcs \<in> set srcs \<and> \<not> isTestSource (findMainSource fs srcs))"
proof (cases "find isMainName srcs")
  case (Some s)
  then have "s \<in> set srcs" "isMainName s" by (auto dest: find_SomeD)
  with Some show ?thesis by (simp add: findMainSource_def isMainName_not_test)
next
  case None
  let ?nt = "filter (\<lambda>s. \<not> isTestSource s) srcs"
  show ?thesis
  proof (cases "\<exists>s. ?nt = [s]")
    case True
    then obtain s where s: "?nt = [s]" by blast
    then have "s \<in> set ?nt" by simp
    then have "s \<in> set srcs" "\<not> isTestSource s" by auto
    with None s show ?thesis by (simp add: findMainSource_def)
  next
    case False
    show ?thesis
    proof (cases "find (hasMainText fs) ?nt")
      case n: None
      with None False show ?thesis
        by (auto simp: findMainSource_def Let_def split: list.splits)
    next
      case (Some s)
      then have "s \<in> set ?nt" by (auto dest: find_SomeD)
      then have "s \<in> set srcs" "\<not> isTestSource s" by auto
      with None False Some show ?thesis
        by (auto simp: findMainSource_def Let_def split: list.splits)
    qed
  qed
qed

lemma isTestSource_empty: "\<not> isTestSource []"
  by (simp add: isTestSource_def filepath_Base_def strings_ToLower_def strings_HasSuffix_def lowerChar_def)

lemma findMainSource_not_test: "\<not> isTestSource (findMainSource fs srcs)"
  using findMainSource_cases [of fs srcs] isTestSource_empty by auto

lemma planSources_fields:
  "Sources (planSources e fs opts srcs) = srcs"
  "TestSources (planSources e fs opts srcs) = testsOf srcs"
  "MainSource (planSources e fs opts srcs) = findMainSource fs srcs"
  by (simp_all add: planSources_def Let_def)

subsection \<open>Fields\<close>

lemma fieldsFrom_nonempty: "cur \<noteq> [] \<or> (\<exists>c\<in>set s. \<not> isSpace c) \<Longrightarrow> fieldsFrom cur s \<noteq> []"
  by (induction s arbitrary: cur) auto

lemma Fields_nonempty: "\<exists>c\<in>set s. \<not> isSpace c \<Longrightarrow> strings_Fields s \<noteq> []"
  by (simp add: strings_Fields_def fieldsFrom_nonempty)

lemma fieldsFrom_space: "fieldsFrom cur (a @ CHR '' '' # b) = fieldsFrom cur a @ fieldsFrom [] b"
  by (induction a arbitrary: cur) (auto simp: isSpace_def)

lemma fieldsFrom_token: "\<forall>c\<in>set t. \<not> isSpace c \<Longrightarrow> cur \<noteq> [] \<or> t \<noteq> [] \<Longrightarrow> fieldsFrom cur t = [rev cur @ t]"
  by (induction t arbitrary: cur) auto

lemma Fields_space: "strings_Fields (a @ CHR '' '' # b) = strings_Fields a @ strings_Fields b"
  by (simp add: strings_Fields_def fieldsFrom_space)

lemma Fields_token: "\<forall>c\<in>set t. \<not> isSpace c \<Longrightarrow> t \<noteq> [] \<Longrightarrow> strings_Fields t = [t]"
  using fieldsFrom_token [of t "[]"] by (simp add: strings_Fields_def)

lemma dash_not_space: "\<not> isSpace (CHR ''-'')"
  by (simp add: isSpace_def)

lemma Fields_compile_ne: "strings_Fields (buildCompileCmd opts src obj) \<noteq> []"
  by (rule Fields_nonempty) (auto simp: buildCompileCmd_def Let_def isSpace_def)

lemma Fields_link_ne: "strings_Fields (linkLine opts objs outp) \<noteq> []"
  by (rule Fields_nonempty) (auto simp: linkLine_def Let_def isSpace_def)

lemma Fields_single_ne: "strings_Fields (singleStepLine e opts src) \<noteq> []"
  by (rule Fields_nonempty) (auto simp: singleStepLine_def Let_def isSpace_def)

lemma argvOf_ne: "strings_Fields line \<noteq> [] \<Longrightarrow> argvOf e opts line \<noteq> []"
  by (simp add: argvOf_def)

subsection \<open>Frames\<close>

lemma println_simps [simp]:
  "files (println s w) = files w" "cxxcache (println s w) = cxxcache w"
  "procs (println s w) = procs w" "clog (println s w) = clog w"
  "out (println s w) = out w @ [s]"
  by (simp_all add: println_def)

lemma spawn_simps [simp]:
  "fst (spawn e argv w) = fst (exec e argv (files w))"
  "fst (snd (spawn e argv w)) = fst (snd (exec e argv (files w)))"
  "files (snd (snd (spawn e argv w))) = snd (snd (exec e argv (files w)))"
  "procs (snd (snd (spawn e argv w))) = procs w @ [argv]"
  "cxxcache (snd (snd (spawn e argv w))) = cxxcache w"
  "clog (snd (snd (spawn e argv w))) = clog w"
  "out (snd (snd (spawn e argv w))) = out w"
  by (simp_all add: spawn_def split: prod.splits)

lemma runCommand_simps:
  assumes "strings_Fields line \<noteq> []"
  shows "fst (runCommand e line opts w) =
           (if fst (exec e (argvOf e opts line) (files w)) then None
            else Some (CommandFailed (argvOf e opts line)))"
    and "files (snd (runCommand e line opts w)) = snd (snd (exec e (argvOf e opts line) (files w)))"
    and "procs (snd (runCommand e line opts w)) = procs w @ [argvOf e opts line]"
    and "cxxcache (snd (runCommand e line opts w)) = cxxcache w"
    and "clog (snd (runCommand e line opts w)) = clog w"
  using assms
  by (auto simp: runCommand_def argvOf_def Let_def spawn_def split: prod.splits)

subsection \<open>One compilation\<close>

lemma compileOne_obj [simp]: "fst (fst (compileOne e opts cc src w)) = objectOf src"
  by (simp add: compileOne_def Let_def split: prod.splits option.splits)

lemma compileOne_skip:
  "\<not> needsRebuild (files w) src (objectOf src) cc \<Longrightarrow>
   compileOne e opts cc src w = ((objectOf src, None), cc, w\<lparr>clog := clog w @ [Evaluated src]\<rparr>)"
  by (simp add: compileOne_def Let_def)

lemma compileOne_run:
  assumes "needsRebuild (files w) src (objectOf src) cc"
  shows "procs (snd (snd (compileOne e opts cc src w))) = procs w @ [compileArgv e opts src]"
    and "files (snd (snd (compileOne e opts cc src w))) =
           snd (snd (exec e (compileArgv e opts src) (files w)))"
    and "cxxcache (snd (snd (compileOne e opts cc src w))) = cxxcache w"
    and "snd (fst (compileOne e opts cc src w)) =
           (if fst (exec e (compileArgv e opts src) (files w)) then None
            else Some (CommandFailed (compileArgv e opts src)))"
    and "fst (snd (compileOne e opts cc src w)) =
           (if fst (exec e (compileArgv e opts src) (files w)) then
              (case snd (snd (exec e (compileArgv e opts src) (files w))) src of
                 None \<Rightarrow> cc | Some i \<Rightarrow> cc(src \<mapsto> unixSeconds (mtime i)))
            else cc)"
    and "clog (snd (snd (compileOne e opts cc src w))) =
           clog w @ Evaluated src #
           (if fst (exec e (compileArgv e opts src) (files w)) then
              (case snd (snd (exec e (compileArgv e opts src) (files w))) src of
                 None \<Rightarrow> [] | Some i \<Rightarrow> [Updated src (unixSeconds (mtime i))])
            else [])"
proof -
  let ?line = "buildCompileCmd opts src (objectOf src)"
  let ?w0 = "w\<lparr>clog := clog w @ [Evaluated src]\<rparr>"
  let ?r = "runCommand e ?line opts ?w0"
  note rc = runCommand_simps [OF Fields_compile_ne, of e opts src "objectOf src" opts ?w0]
  have eq: "compileOne e opts cc src w =
      (case ?r of
         (Some err, w1) \<Rightarrow> ((objectOf src, Some err), cc, w1)
       | (None, w1) \<Rightarrow> (case updateTimestamp src cc w1 of (cc', w2) \<Rightarrow> ((objectOf src, None), cc', w2)))"
    using assms by (simp add: compileOne_def Let_def)
  obtain r w1 where r: "?r = (r, w1)" by (cases ?r)
  from rc r have f: "r = (if fst (exec e (compileArgv e opts src) (files w)) then None
            else Some (CommandFailed (compileArgv e opts src)))"
    and fl: "files w1 = snd (snd (exec e (compileArgv e opts src) (files w)))"
    and pr: "procs w1 = procs w @ [compileArgv e opts src]"
    and cx: "cxxcache w1 = cxxcache w"
    and cl: "clog w1 = clog w @ [Evaluated src]"
    by (simp_all add: compileArgv_def)
  show "procs (snd (snd (compileOne e opts cc src w))) = procs w @ [compileArgv e opts src]"
    using eq r f pr by (auto simp: updateTimestamp_def split: option.splits)
  show "files (snd (snd (compileOne e opts cc src w))) =
           snd (snd (exec e (compileArgv e opts src) (files w)))"
    using eq r f fl by (auto simp: updateTimestamp_def split: option.splits)
  show "cxxcache (snd (snd (compileOne e opts cc src w))) = cxxcache w"
    using eq r f cx by (auto simp: updateTimestamp_def split: option.splits)
  show "snd (fst (compileOne e opts cc src w)) =
           (if fst (exec e (compileArgv e opts src) (files w)) then None
            else Some (CommandFailed (compileArgv e opts src)))"
    using eq r f by (auto simp: updateTimestamp_def split: option.splits)
  show "fst (snd (compileOne e opts cc src w)) =
           (if fst (exec e (compileArgv e opts src) (files w)) then
              (case snd (snd (exec e (compileArgv e opts src) (files w))) src of
                 None \<Rightarrow> cc | Some i \<Rightarrow> cc(src \<mapsto> unixSeconds (mtime i)))
            else cc)"
    using eq r f fl by (auto simp: updateTimestamp_def split: option.splits)
  show "clog (snd (snd (compileOne e opts cc src w))) =
           clog w @ Evaluated src #
           (if fst (exec e (compileArgv e opts src) (files w)) then
              (case snd (snd (exec e (compileArgv e opts src) (files w))) src of
                 None \<Rightarrow> [] | Some i \<Rightarrow> [Updated src (unixSeconds (mtime i))])
            else [])"
    using eq r f fl cl by (auto simp: updateTimestamp_def split: option.splits)
qed

lemma compileOne_procs:
  "procs (snd (snd (compileOne e opts cc src w))) =
     procs w @ (if needsRebuild (files w) src (objectOf src) cc then [compileArgv e opts src] else [])"
  by (simp add: compileOne_run compileOne_skip)

lemma compileOne_cxxcache [simp]:
  "cxxcache (snd (snd (compileOne e opts cc src w))) = cxxcache w"
  by (cases "needsRebuild (files w) src (objectOf src) cc") (simp_all add: compileOne_run compileOne_skip)

lemma compileOne_files:
  "files (snd (snd (compileOne e opts cc src w))) =
     (if needsRebuild (files w) src (objectOf src) cc
      then snd (snd (exec e (compileArgv e opts src) (files w))) else files w)"
  by (simp add: compileOne_run compileOne_skip)

subsection \<open>What the package hints change of the options\<close>

lemma coreOptions_fields:
  assumes "coreOptions a = coreOptions b"
  shows "CXX a = CXX b" "Std a = Std b" "Win64Docker a = Win64Docker b" "Debug a = Debug b"
    "Strict a = Strict b" "Sloppy a = Sloppy b" "Opt a = Opt b" "Clang a = Clang b"
    "Run a = Run b" "Test a = Test b" "Clean a = Clean b" "Pro a = Pro b"
    "Version a = Version b" "MainSource a = MainSource b" "OutputName a = OutputName b"
    "DetectedDistro a = DetectedDistro b" "Sources a = Sources b"
    "TestSources a = TestSources b" "IncludeDirs a = IncludeDirs b"
    "SystemIncludeDirs a = SystemIncludeDirs b"
proof -
  have "CXX (coreOptions a) = CXX (coreOptions b)" using assms by simp
  then show "CXX a = CXX b" by (simp add: coreOptions_def)
  have "Std (coreOptions a) = Std (coreOptions b)" using assms by simp
  then show "Std a = Std b" by (simp add: coreOptions_def)
  have "Win64Docker (coreOptions a) = Win64Docker (coreOptions b)" using assms by simp
  then show "Win64Docker a = Win64Docker b" by (simp add: coreOptions_def)
  have "Debug (coreOptions a) = Debug (coreOptions b)" using assms by simp
  then show "Debug a = Debug b" by (simp add: coreOptions_def)
  have "Strict (coreOptions a) = Strict (coreOptions b)" using assms by simp
  then show "Strict a = Strict b" by (simp add: coreOptions_def)
  have "Sloppy (coreOptions a) = Sloppy (coreOptions b)" using assms by simp
  then show "Sloppy a = Sloppy b" by (simp add: coreOptions_def)
  have "Opt (coreOptions a) = Opt (coreOptions b)" using assms by simp
  then show "Opt a = Opt b" by (simp add: coreOptions_def)
  have "Clang (coreOptions a) = Clang (coreOptions b)" using assms by simp
  then show "Clang a = Clang b" by (simp add: coreOptions_def)
  have "Run (coreOptions a) = Run (coreOptions b)" using assms by simp
  then show "Run a = Run b" by (simp add: coreOptions_def)
  have "Test (coreOptions a) = Test (coreOptions b)" using assms by simp
  then show "Test a = Test b" by (simp add: coreOptions_def)
  have "Clean (coreOptions a) = Clean (coreOptions b)" using assms by simp
  then show "Clean a = Clean b" by (simp add: coreOptions_def)
  have "Pro (coreOptions a) = Pro (coreOptions b)" using assms by simp
  then show "Pro a = Pro b" by (simp add: coreOptions_def)
  have "Version (coreOptions a) = Version (coreOptions b)" using assms by simp
  then show "Version a = Version b" by (simp add: coreOptions_def)
  have "MainSource (coreOptions a) = MainSource (coreOptions b)" using assms by simp
  then show "MainSource a = MainSource b" by (simp add: coreOptions_def)
  have "OutputName (coreOptions a) = OutputName (coreOptions b)" using assms by simp
  then show "OutputName a = OutputName b" by (simp add: coreOptions_def)
  have "DetectedDistro (coreOptions a) = DetectedDistro (coreOptions b)" using assms by simp
  then show "DetectedDistro a = DetectedDistro b" by (simp add: coreOptions_def)
  have "Sources (coreOptions a) = Sources (coreOptions b)" using assms by simp
  then show "Sources a = Sources b" by (simp add: coreOptions_def)
  have "TestSources (coreOptions a) = TestSources (coreOptions b)" using assms by simp
  then show "TestSources a = TestSources b" by (simp add: coreOptions_def)
  have "IncludeDirs (coreOptions a) = IncludeDirs (coreOptions b)" using assms by simp
  then show "IncludeDirs a = IncludeDirs b" by (simp add: coreOptions_def)
  have "SystemIncludeDirs (coreOptions a) = SystemIncludeDirs (coreOptions b)" using assms by simp
  then show "SystemIncludeDirs a = SystemIncludeDirs b" by (simp add: coreOptions_def)
qed

lemma mergeFlag_core [simp]: "coreOptions (mergeFlag opts f) = coreOptions opts"
  by (simp add: mergeFlag_def coreOptions_def)

lemma mergePkgConfigFlags_core [simp]: "coreOptions (mergePkgConfigFlags flags opts) = coreOptions opts"
proof -
  have "coreOptions (foldl mergeFlag opts fs) = coreOptions opts" for fs
    by (induction fs arbitrary: opts) simp_all
  then show ?thesis by (simp add: mergePkgConfigFlags_def)
qed

lemma gatherPkgConfigFlags_world:
  "cxxcache (snd (gatherPkgConfigFlags e pkg dist w)) = cxxcache w"
  "clog (snd (gatherPkgConfigFlags e pkg dist w)) = clog w"
  "out (snd (gatherPkgConfigFlags e pkg dist w)) = out w"
  "procs (snd (gatherPkgConfigFlags e pkg dist w)) = procs w \<or>
   procs (snd (gatherPkgConfigFlags e pkg dist w)) =
     procs w @ [strings_Fields (''pkg-config --cflags --libs '' @ strings_ToLower pkg)]"
  by (auto simp: gatherPkgConfigFlags_def runShellCommand_def Let_def spawn_def split: prod.splits)

lemma reportMissing_core: "coreOptions (fst (reportMissing e hs opts w)) = coreOptions opts"
proof (induction hs arbitrary: opts w)
  case Nil
  show ?case by simp
next
  case (Cons h hs)
  show ?case
    by (simp add: Let_def Cons.IH split: prod.splits sum.splits)
qed

lemma reportMissing_world:
  "cxxcache (snd (reportMissing e hs opts w)) = cxxcache w \<and>
   clog (snd (reportMissing e hs opts w)) = clog w \<and>
   set (out w) \<subseteq> set (out (snd (reportMissing e hs opts w))) \<and>
   (\<forall>h\<in>set hs. ''   '' @ h \<in> set (out (snd (reportMissing e hs opts w)))) \<and>
   (\<exists>ps. procs (snd (reportMissing e hs opts w)) = procs w @ ps \<and>
         set ps \<subseteq> pkgQuery (DetectedDistro opts) ` set hs)"
proof (induction hs arbitrary: opts w)
  case Nil
  show ?case by simp
next
  case (Cons h hs)
  let ?w1 = "println (''   '' @ h) w"
  obtain pkg cmd where m: "mapHeaderToPkg h (DetectedDistro opts) = (pkg, cmd)"
    by (cases "mapHeaderToPkg h (DetectedDistro opts)")
  show ?case
  proof (cases "pkg \<noteq> [] \<and> cmd \<noteq> []")
    case False
    then have eq: "reportMissing e (h # hs) opts w = reportMissing e hs opts ?w1"
      using m by (auto simp: Let_def)
    from Cons.IH [of opts ?w1] obtain ps where
      ps: "procs (snd (reportMissing e hs opts ?w1)) = procs w @ ps"
          "set ps \<subseteq> pkgQuery (DetectedDistro opts) ` set hs" by auto
    from ps(2) have "set ps \<subseteq> pkgQuery (DetectedDistro opts) ` set (h # hs)" by auto
    with ps(1) Cons.IH [of opts ?w1] show ?thesis unfolding eq by auto
  next
    case True
    let ?w2 = "println (''    Possibly install with: '' @ cmd) ?w1"
    let ?g = "gatherPkgConfigFlags e pkg (DetectedDistro opts) ?w2"
    obtain r w3 where g: "?g = (r, w3)" by (cases ?g)
    from gatherPkgConfigFlags_world [of e pkg "DetectedDistro opts" ?w2] g
    have w3: "cxxcache w3 = cxxcache w" "clog w3 = clog w"
        "out w3 = out w @ [''   '' @ h, ''    Possibly install with: '' @ cmd]"
        "procs w3 = procs w \<or> procs w3 = procs w @ [pkgQuery (DetectedDistro opts) h]"
      using m by (auto simp: pkgQuery_def)
    define opts2 where
      "opts2 = (case r of Inl err \<Rightarrow> opts
                | Inr b \<Rightarrow> if b \<noteq> [] then mergePkgConfigFlags b opts else opts)"
    have eq: "reportMissing e (h # hs) opts w = reportMissing e hs opts2 w3"
      using m True g by (cases r) (auto simp: Let_def opts2_def)
    have core: "coreOptions opts2 = coreOptions opts"
      by (cases r) (auto simp: opts2_def)
    from core have dd: "DetectedDistro opts2 = DetectedDistro opts" by (rule coreOptions_fields)
    from Cons.IH [of opts2 w3] obtain ps where
      ps: "procs (snd (reportMissing e hs opts2 w3)) = procs w3 @ ps"
          "set ps \<subseteq> pkgQuery (DetectedDistro opts) ` set hs" using dd by auto
    from w3(4) ps have "\<exists>qs. procs (snd (reportMissing e hs opts2 w3)) = procs w @ qs \<and>
        set qs \<subseteq> pkgQuery (DetectedDistro opts) ` set (h # hs)"
      by auto
    moreover have "set (out w) \<subseteq> set (out (snd (reportMissing e hs opts2 w3)))"
        "''   '' @ h \<in> set (out (snd (reportMissing e hs opts2 w3)))"
      using Cons.IH [of opts2 w3] w3(3) by auto
    ultimately show ?thesis unfolding eq using Cons.IH [of opts2 w3] w3(1,2) by auto
  qed
qed

lemma pkgDiscovery_core: "coreOptions (fst (snd (pkgDiscovery e opts missing w))) = coreOptions opts"
proof -
  obtain o' w' where r: "reportMissing e missing opts (println ''Missing headers:'' w) = (o', w')"
    by (cases "reportMissing e missing opts (println ''Missing headers:'' w)")
  with reportMissing_core [of e missing opts "println ''Missing headers:'' w"]
  show ?thesis by (simp add: pkgDiscovery_def)
qed

lemma pkgDiscovery_exit: "fst (pkgDiscovery e opts missing w) = (\<not> Sloppy opts)"
proof -
  obtain o' w' where r: "reportMissing e missing opts (println ''Missing headers:'' w) = (o', w')"
    by (cases "reportMissing e missing opts (println ''Missing headers:'' w)")
  with reportMissing_core [of e missing opts "println ''Missing headers:'' w"]
  have "coreOptions o' = coreOptions opts" by simp
  then have "Sloppy o' = Sloppy opts" by (rule coreOptions_fields)
  with r show ?thesis by (simp add: pkgDiscovery_def)
qed

lemma pkgDiscovery_world:
  "cxxcache (snd (snd (pkgDiscovery e opts missing w))) = cxxcache w \<and>
   clog (snd (snd (pkgDiscovery e opts missing w))) = clog w \<and>
   (\<forall>h\<in>set missing. ''   '' @ h \<in> set (out (snd (snd (pkgDiscovery e opts missing w))))) \<and>
   (\<exists>ps. procs (snd (snd (pkgDiscovery e opts missing w))) = procs w @ ps \<and>
         set ps \<subseteq> pkgQuery (DetectedDistro opts) ` set missing)"
proof -
  obtain o' w' where r: "reportMissing e missing opts (println ''Missing headers:'' w) = (o', w')"
    by (cases "reportMissing e missing opts (println ''Missing headers:'' w)")
  with reportMissing_world [of e missing opts "println ''Missing headers:'' w"]
  show ?thesis by (auto simp: pkgDiscovery_def)
qed

subsection \<open>Relations kept by the loops\<close>

text \<open>A relation between the cache and world before and after, reflexive and transitive
  and kept by every single step, is kept by the loops.\<close>

lemma compileSources_rel:
  assumes refl: "\<And>x. R x x" and trans: "\<And>x y z. R x y \<Longrightarrow> R y z \<Longrightarrow> R x z"
    and step: "\<And>cc s w. s \<in> set srcs \<Longrightarrow> R (cc, w) (snd (compileOne e opts cc s w))"
  shows "set ss \<subseteq> set srcs \<Longrightarrow> R (cc, w) (snd (compileSources e opts ss cc w))"
proof (induction ss arbitrary: cc w)
  case Nil
  show ?case by (simp add: refl)
next
  case (Cons s ss)
  show ?case
  proof (cases "\<not> Test opts \<and> isTestSource s")
    case True
    then show ?thesis using Cons by simp
  next
    case False
    obtain obj r cc1 w1 where c: "compileOne e opts cc s w = ((obj, r), cc1, w1)"
      by (cases "compileOne e opts cc s w") auto
    have s1: "R (cc, w) (cc1, w1)" using step [of s cc w] c Cons.prems by simp
    show ?thesis
    proof (cases r)
      case (Some err)
      with False c s1 show ?thesis by auto
    next
      case None
      obtain r2 cc2 w2 where c2: "compileSources e opts ss cc1 w1 = (r2, cc2, w2)"
        by (cases "compileSources e opts ss cc1 w1") auto
      have "R (cc1, w1) (cc2, w2)" using Cons.IH [of cc1 w1] Cons.prems c2 by simp
      with s1 have "R (cc, w) (cc2, w2)" by (rule trans)
      with False c None c2 show ?thesis by (cases r2) auto
    qed
  qed
qed

lemma compileNormal_rel:
  assumes refl: "\<And>x. R x x" and trans: "\<And>x y z. R x y \<Longrightarrow> R y z \<Longrightarrow> R x z"
    and step: "\<And>cc s w. s \<in> set srcs \<Longrightarrow> R (cc, w) (snd (compileOne e opts cc s w))"
  shows "set ss \<subseteq> set srcs \<Longrightarrow> R (cc, w) (snd (compileNormal e opts ss cc w))"
proof (induction ss arbitrary: cc w)
  case Nil
  show ?case by (simp add: refl)
next
  case (Cons s ss)
  show ?case
  proof (cases "isTestSource s")
    case True
    then show ?thesis using Cons by simp
  next
    case False
    obtain obj r cc1 w1 where c: "compileOne e opts cc s w = ((obj, r), cc1, w1)"
      by (cases "compileOne e opts cc s w") auto
    have s1: "R (cc, w) (cc1, w1)" using step [of s cc w] c Cons.prems by simp
    show ?thesis
    proof (cases r)
      case (Some err)
      with False c s1 show ?thesis by auto
    next
      case None
      obtain r2 cc2 w2 where c2: "compileNormal e opts ss cc1 w1 = (r2, cc2, w2)"
        by (cases "compileNormal e opts ss cc1 w1") auto
      have "R (cc1, w1) (cc2, w2)" using Cons.IH [of cc1 w1] Cons.prems c2 by simp
      with s1 have "R (cc, w) (cc2, w2)" by (rule trans)
      with False c None c2 show ?thesis by (cases r2) auto
    qed
  qed
qed

lemma runTests_rel:
  assumes refl: "\<And>x. R x x" and trans: "\<And>x y z. R x y \<Longrightarrow> R y z \<Longrightarrow> R x z"
    and step: "\<And>cc s w. s \<in> set srcs \<Longrightarrow> R (cc, w) (snd (compileOne e opts cc s w))"
    and run: "\<And>cc line w. R (cc, w) (cc, snd (runCommand e line opts w))"
    and prt: "\<And>cc s w. R (cc, w) (cc, println s w)"
    and spw: "\<And>cc argv w. R (cc, w) (cc, snd (snd (spawn e argv w)))"
  shows "set ss \<subseteq> set srcs \<Longrightarrow> R (cc, w) (snd (runTests e opts objs ss cc w))"
proof (induction ss arbitrary: cc w)
  case Nil
  show ?case by (simp add: refl)
next
  case (Cons s ss)
  obtain obj r cc1 w1 where c: "compileOne e opts cc s w = ((obj, r), cc1, w1)"
    by (cases "compileOne e opts cc s w") auto
  have s1: "R (cc, w) (cc1, w1)" using step [of s cc w] c Cons.prems by simp
  show ?case
  proof (cases r)
    case (Some err)
    with c s1 show ?thesis by simp
  next
    case None
    let ?exe = "ensureExeSuffix e (strings_TrimSuffix obj ''.o'') (Win64Docker opts)"
    obtain r2 w2 where l: "linkObjects e opts (obj # objs) ?exe w1 = (r2, w2)"
      by (cases "linkObjects e opts (obj # objs) ?exe w1")
    have "R (cc1, w1) (cc1, w2)"
      using run [of cc1 w1 "linkLine opts (obj # objs) ?exe"] l by (simp add: linkObjects_def)
    with s1 have s2: "R (cc, w) (cc1, w2)" by (rule trans)
    show ?thesis
    proof (cases r2)
      case (Some err)
      with c None l s2 show ?thesis by (simp add: Let_def)
    next
      case n2: None
      let ?w3 = "println (''Running test: '' @ ?exe) w2"
      have s3: "R (cc, w) (cc1, ?w3)" using s2 prt [of cc1 w2 "''Running test: '' @ ?exe"] by (rule trans)
      show ?thesis
      proof (cases "Win64Docker opts")
        case True
        let ?w4 = "println ''Cannot run Windows .exe test under Docker cross-compile.'' ?w3"
        have s4: "R (cc, w) (cc1, ?w4)" using s3 prt by (rule trans)
        have "R (cc1, ?w4) (snd (runTests e opts objs ss cc1 ?w4))"
          using Cons.IH [of cc1 ?w4] Cons.prems by simp
        with s4 have "R (cc, w) (snd (runTests e opts objs ss cc1 ?w4))" by (rule trans)
        with c None l n2 True show ?thesis by (simp add: Let_def)
      next
        case False
        obtain ok b w5 where sp: "spawn e [''./'' @ ?exe] ?w3 = (ok, b, w5)"
          by (cases "spawn e [''./'' @ ?exe] ?w3") auto
        have "R (cc1, ?w3) (cc1, w5)" using spw [of cc1 ?w3 "[''./'' @ ?exe]"] sp by simp
        with s3 have s5: "R (cc, w) (cc1, w5)" by (rule trans)
        have "R (cc1, w5) (snd (runTests e opts objs ss cc1 w5))"
          using Cons.IH [of cc1 w5] Cons.prems by simp
        with s5 have "R (cc, w) (snd (runTests e opts objs ss cc1 w5))" by (rule trans)
        with c None l n2 False sp s5 show ?thesis by (simp add: Let_def)
      qed
    qed
  qed
qed

lemma buildAndRunTests_rel:
  assumes refl: "\<And>x. R x x" and trans: "\<And>x y z. R x y \<Longrightarrow> R y z \<Longrightarrow> R x z"
    and step: "\<And>cc s w. R (cc, w) (snd (compileOne e opts cc s w))"
    and run: "\<And>cc line w. R (cc, w) (cc, snd (runCommand e line opts w))"
    and prt: "\<And>cc s w. R (cc, w) (cc, println s w)"
    and spw: "\<And>cc argv w. R (cc, w) (cc, snd (snd (spawn e argv w)))"
  shows "R (cc, w) (snd (buildAndRunTests e opts cc w))"
proof -
  obtain r cc1 w1 where n: "compileNormal e opts (Sources opts) cc w = (r, cc1, w1)"
    by (cases "compileNormal e opts (Sources opts) cc w") auto
  have s1: "R (cc, w) (cc1, w1)"
    using compileNormal_rel [of R "Sources opts" e opts "Sources opts" cc w, OF refl trans step] n
    by simp
  show ?thesis
  proof (cases r)
    case (Inl err)
    with n s1 show ?thesis by (simp add: buildAndRunTests_def)
  next
    case (Inr objs)
    have "R (cc1, w1) (snd (runTests e opts objs (TestSources opts) cc1 w1))"
      using runTests_rel [of R "TestSources opts" e opts "TestSources opts" cc1 w1 objs,
          OF refl trans step run prt spw] by simp
    with s1 have "R (cc, w) (snd (runTests e opts objs (TestSources opts) cc1 w1))" by (rule trans)
    with n Inr show ?thesis by (simp add: buildAndRunTests_def)
  qed
qed

text \<open>The same for a relation between worlds, through the steps after the build.\<close>

lemma runStep_rel:
  assumes refl: "\<And>w. Q w w" and trans: "\<And>x y z. Q x y \<Longrightarrow> Q y z \<Longrightarrow> Q x z"
    and prt: "\<And>s w. Q w (println s w)"
    and spw: "\<And>argv w. Q w (snd (snd (spawn e argv w)))"
  shows "Q w (snd (runStep e opts w))"
proof -
  have p2: "Q w (println b (println a w))" for a b
    using prt [of w a] prt [of "println a w" b] by (rule trans)
  have p3: "Q w (println c (println b (println a w)))" for a b c
    using p2 [where a = a and b = b] prt [of "println b (println a w)" c] by (rule trans)
  show ?thesis
  proof (cases "Run opts \<and> OutputName opts \<noteq> []")
    case False
    then show ?thesis using prt by (auto simp: runStep_def)
  next
    case True
    let ?w1 = "println (''Running: '' @ OutputName opts) w"
    show ?thesis
    proof (cases "Win64Docker opts")
      case d: True
      with True show ?thesis using p3 by (simp add: runStep_def Let_def)
    next
      case d: False
      obtain ok b w2 where sp: "spawn e [''./'' @ OutputName opts] ?w1 = (ok, b, w2)"
        by (cases "spawn e [''./'' @ OutputName opts] ?w1") auto
      have "Q ?w1 w2" using spw [of ?w1 "[''./'' @ OutputName opts]"] sp by simp
      with prt [of w "''Running: '' @ OutputName opts"] have q2: "Q w w2" by (rule trans)
      then have "Q w (println (''Build complete on '' @ DetectedDistro opts) w2)"
        using prt by (rule trans)
      with True d sp q2 show ?thesis by (simp add: runStep_def Let_def)
    qed
  qed
qed

lemma testStep_rel:
  assumes refl: "\<And>w. Q w w" and trans: "\<And>x y z. Q x y \<Longrightarrow> Q y z \<Longrightarrow> Q x z"
    and step: "\<And>cc s w. Q w (snd (snd (compileOne e opts cc s w)))"
    and run: "\<And>line w. Q w (snd (runCommand e line opts w))"
    and prt: "\<And>s w. Q w (println s w)"
    and spw: "\<And>argv w. Q w (snd (snd (spawn e argv w)))"
  shows "Q w (snd (testStep e opts tests cc w))"
proof (cases "Test opts \<and> length tests > 0")
  case False
  then show ?thesis using runStep_rel [of Q e w opts, OF refl trans prt spw]
    by (auto simp: testStep_def)
next
  case True
  let ?R = "\<lambda>x y. Q (snd x) (snd y)"
  have b: "?R (cc, w) (snd (buildAndRunTests e opts cc w))"
    by (rule buildAndRunTests_rel [of ?R]) (auto intro: refl trans step run prt spw)
  obtain r cc1 w1 where t: "buildAndRunTests e opts cc w = (r, cc1, w1)"
    by (cases "buildAndRunTests e opts cc w") auto
  with b have q1: "Q w w1" by simp
  show ?thesis
  proof (cases r)
    case (Some err)
    with True t q1 show ?thesis by (auto simp: testStep_def)
  next
    case None
    have "Q w1 (snd (runStep e opts w1))" by (rule runStep_rel [OF refl trans prt spw])
    with q1 have "Q w (snd (runStep e opts w1))" by (rule trans)
    with True t None show ?thesis by (auto simp: testStep_def)
  qed
qed

subsection \<open>The processes only grow\<close>

lemma runCommand_procs_le: "length (procs w) \<le> length (procs (snd (runCommand e line opts w)))"
  by (auto simp: runCommand_def Let_def spawn_def split: prod.splits)

lemma compileOne_procs_le: "length (procs w) \<le> length (procs (snd (snd (compileOne e opts cc s w))))"
  by (simp add: compileOne_procs)

lemma testStep_procs_le: "length (procs w) \<le> length (procs (snd (testStep e opts tests cc w)))"
  by (rule testStep_rel [of "\<lambda>w w'. length (procs w) \<le> length (procs w')"])
     (auto simp: runCommand_procs_le compileOne_procs_le)

lemma compileSources_procs_le:
  "length (procs w) \<le> length (procs (snd (snd (compileSources e opts ss cc w))))"
  using compileSources_rel [of "\<lambda>x y. length (procs (snd x)) \<le> length (procs (snd y))" ss e opts ss cc w]
  by (auto simp: compileOne_procs_le)

lemma compileSources_fail_grows:
  "fst (compileSources e opts ss cc w) = Inl err \<Longrightarrow>
   length (procs w) < length (procs (snd (snd (compileSources e opts ss cc w))))"
proof (induction ss arbitrary: cc w)
  case Nil
  then show ?case by simp
next
  case (Cons s ss)
  show ?case
  proof (cases "\<not> Test opts \<and> isTestSource s")
    case True
    then show ?thesis using Cons by simp
  next
    case False
    obtain obj r cc1 w1 where c: "compileOne e opts cc s w = ((obj, r), cc1, w1)"
      by (cases "compileOne e opts cc s w") auto
    have le: "length (procs w) \<le> length (procs w1)"
      using compileOne_procs_le [of w e opts cc s] c by simp
    show ?thesis
    proof (cases r)
      case (Some e1)
      have nr: "needsRebuild (files w) s (objectOf s) cc"
        using c Some by (cases "needsRebuild (files w) s (objectOf s) cc") (auto simp: compileOne_skip)
      have "procs w1 = procs w @ [compileArgv e opts s]"
        using compileOne_run(1) [OF nr, of e opts] c by simp
      with False c Some show ?thesis by auto
    next
      case None
      obtain r2 cc2 w2 where c2: "compileSources e opts ss cc1 w1 = (r2, cc2, w2)"
        by (cases "compileSources e opts ss cc1 w1") auto
      from Cons.prems False c None c2 have "r2 = Inl err" by (cases r2) auto
      with Cons.IH [of cc1 w1] c2 have "length (procs w1) < length (procs w2)" by simp
      with le False c None c2 \<open>r2 = Inl err\<close> show ?thesis by auto
    qed
  qed
qed

lemma linkObjects_simps:
  "fst (linkObjects e opts objs outp w) =
     (if fst (exec e (argvOf e opts (linkLine opts objs outp)) (files w)) then None
      else Some (CommandFailed (argvOf e opts (linkLine opts objs outp))))"
  "files (snd (linkObjects e opts objs outp w)) =
     snd (snd (exec e (argvOf e opts (linkLine opts objs outp)) (files w)))"
  "procs (snd (linkObjects e opts objs outp w)) = procs w @ [argvOf e opts (linkLine opts objs outp)]"
  "cxxcache (snd (linkObjects e opts objs outp w)) = cxxcache w"
  "clog (snd (linkObjects e opts objs outp w)) = clog w"
  by (simp_all add: linkObjects_def runCommand_simps [OF Fields_link_ne])

lemma singleStepBuild_simps:
  "fst (singleStepBuild e opts s w) =
     (if fst (exec e (argvOf e opts (singleStepLine e opts s)) (files w)) then None
      else Some (CommandFailed (argvOf e opts (singleStepLine e opts s))))"
  "files (snd (snd (singleStepBuild e opts s w))) =
     snd (snd (exec e (argvOf e opts (singleStepLine e opts s)) (files w)))"
  "procs (snd (snd (singleStepBuild e opts s w))) = procs w @ [argvOf e opts (singleStepLine e opts s)]"
  "cxxcache (snd (snd (singleStepBuild e opts s w))) = cxxcache w"
  "clog (snd (snd (singleStepBuild e opts s w))) = clog w"
  "fst (snd (singleStepBuild e opts s w)) =
     (if fst (exec e (argvOf e opts (singleStepLine e opts s)) (files w))
      then opts\<lparr>OutputName := ensureExeSuffix e (OutputName opts) (Win64Docker opts)\<rparr> else opts)"
proof -
  let ?line = "singleStepLine e opts s"
  let ?r = "runCommand e ?line opts (println ?line w)"
  note rc = runCommand_simps [OF Fields_single_ne, where w = "println ?line w"]
  obtain r w1 where r: "?r = (r, w1)" by (cases ?r)
  have eq: "singleStepBuild e opts s w =
      (case r of Some err \<Rightarrow> (Some err, opts, w1)
       | None \<Rightarrow> (None, opts\<lparr>OutputName := ensureExeSuffix e (OutputName opts) (Win64Docker opts)\<rparr>, w1))"
    using r by (simp add: singleStepBuild_def Let_def split: option.splits)
  have "fst ?r = (if fst (exec e (argvOf e opts ?line) (files w)) then None
            else Some (CommandFailed (argvOf e opts ?line)))"
    and "files (snd ?r) = snd (snd (exec e (argvOf e opts ?line) (files w)))"
    and "procs (snd ?r) = procs w @ [argvOf e opts ?line]"
    and "cxxcache (snd ?r) = cxxcache w"
    and "clog (snd ?r) = clog w"
    by (simp_all add: rc)
  with r have f: "r = (if fst (exec e (argvOf e opts ?line) (files w)) then None
            else Some (CommandFailed (argvOf e opts ?line)))"
    and fl: "files w1 = snd (snd (exec e (argvOf e opts ?line) (files w)))"
    and pr: "procs w1 = procs w @ [argvOf e opts ?line]"
    and cx: "cxxcache w1 = cxxcache w"
    and cl: "clog w1 = clog w"
    by simp_all
  show "fst (singleStepBuild e opts s w) =
     (if fst (exec e (argvOf e opts (singleStepLine e opts s)) (files w)) then None
      else Some (CommandFailed (argvOf e opts (singleStepLine e opts s))))"
    using eq f by (auto split: option.splits)
  show "files (snd (snd (singleStepBuild e opts s w))) =
     snd (snd (exec e (argvOf e opts (singleStepLine e opts s)) (files w)))"
    using eq fl by (auto split: option.splits)
  show "procs (snd (snd (singleStepBuild e opts s w))) = procs w @ [argvOf e opts (singleStepLine e opts s)]"
    using eq pr by (auto split: option.splits)
  show "cxxcache (snd (snd (singleStepBuild e opts s w))) = cxxcache w"
    using eq cx by (auto split: option.splits)
  show "clog (snd (snd (singleStepBuild e opts s w))) = clog w"
    using eq cl by (auto split: option.splits)
  show "fst (snd (singleStepBuild e opts s w)) =
     (if fst (exec e (argvOf e opts (singleStepLine e opts s)) (files w))
      then opts\<lparr>OutputName := ensureExeSuffix e (OutputName opts) (Win64Docker opts)\<rparr> else opts)"
    using eq f by (auto split: option.splits)
qed

lemma buildStep_grows:
  "length (procs w) < length (procs (snd (buildStep e opts normalSources testSources w)))"
proof (cases "singleStep opts normalSources testSources")
  case True
  obtain r opts1 w1 where s: "singleStepBuild e opts (normalSources ! 0) w = (r, opts1, w1)"
    by (cases "singleStepBuild e opts (normalSources ! 0) w") auto
  have p: "procs w1 = procs w @ [argvOf e opts (singleStepLine e opts (normalSources ! 0))]"
    using singleStepBuild_simps(3) [of e opts "normalSources ! 0" w] s by simp
  show ?thesis
  proof (cases r)
    case (Some err)
    with True s p show ?thesis by (simp add: buildStep_def)
  next
    case None
    have "length (procs w1) \<le> length (procs (snd (testStep e opts1 testSources (loadCache w) w1)))"
      by (rule testStep_procs_le)
    with True s p None show ?thesis by (simp add: buildStep_def)
  qed
next
  case False
  let ?cs = "compileSources e opts (Sources opts) (loadCache w) w"
  obtain r cc1 w1 where c: "?cs = (r, cc1, w1)" by (cases ?cs) auto
  show ?thesis
  proof (cases r)
    case (Inl err)
    with compileSources_fail_grows [of e opts "Sources opts" "loadCache w" w err] c
    have "length (procs w) < length (procs w1)" by simp
    with False c Inl show ?thesis by (simp add: buildStep_def compileAndLink_def)
  next
    case (Inr objs)
    have le: "length (procs w) \<le> length (procs w1)"
      using compileSources_procs_le [of w e opts "Sources opts" "loadCache w"] c by simp
    let ?on = "ensureExeSuffix e (OutputName opts) (Win64Docker opts)"
    obtain r2 w2 where l: "linkObjects e opts objs ?on w1 = (r2, w2)"
      by (cases "linkObjects e opts objs ?on w1")
    have p2: "procs w2 = procs w1 @ [argvOf e opts (linkLine opts objs ?on)]"
      using linkObjects_simps(3) [of e opts objs ?on w1] l by simp
    show ?thesis
    proof (cases r2)
      case (Some err)
      with False c Inr l p2 le show ?thesis by (simp add: buildStep_def compileAndLink_def Let_def)
    next
      case None
      have "length (procs (saveCache cc1 w2)) \<le>
          length (procs (snd (testStep e (opts\<lparr>OutputName := ?on\<rparr>) testSources cc1 (saveCache cc1 w2))))"
        by (rule testStep_procs_le)
      then have "length (procs w2) \<le>
          length (procs (snd (testStep e (opts\<lparr>OutputName := ?on\<rparr>) testSources cc1 (saveCache cc1 w2))))"
        by (simp add: saveCache_def)
      with False c Inr l p2 le None show ?thesis
        by (simp add: buildStep_def compileAndLink_def Let_def)
    qed
  qed
qed

subsection \<open>The options through \<open>main\<close>\<close>

lemma parseArg_const:
  "Std (parseArg opts a) = Std opts" "ExtraCFlags (parseArg opts a) = ExtraCFlags opts"
  "ExtraLDFlags (parseArg opts a) = ExtraLDFlags opts" "OutputName (parseArg opts a) = OutputName opts"
  by (simp_all add: parseArg_def)

lemma parseArgs_const:
  "Std (parseArgs args) = ''c++20''" "ExtraCFlags (parseArgs args) = []"
  "ExtraLDFlags (parseArgs args) = []"
proof -
  have "Std (foldl parseArg opts args) = Std opts \<and>
        ExtraCFlags (foldl parseArg opts args) = ExtraCFlags opts \<and>
        ExtraLDFlags (foldl parseArg opts args) = ExtraLDFlags opts" for opts
    by (induction args arbitrary: opts) (simp_all add: parseArg_const)
  from this [of defaultOptions]
  show "Std (parseArgs args) = ''c++20''" "ExtraCFlags (parseArgs args) = []"
    "ExtraLDFlags (parseArgs args) = []"
    by (simp_all add: parseArgs_def defaultOptions_def)
qed

lemma plannedOptions_fields:
  "Version (plannedOptions e args fs) = Version (parseArgs args)"
  "Clean (plannedOptions e args fs) = Clean (parseArgs args)"
  "Pro (plannedOptions e args fs) = Pro (parseArgs args)"
  "Sloppy (plannedOptions e args fs) = Sloppy (parseArgs args)"
  "Test (plannedOptions e args fs) = Test (parseArgs args)"
  "Run (plannedOptions e args fs) = Run (parseArgs args)"
  "Win64Docker (plannedOptions e args fs) = Win64Docker (parseArgs args)"
  "Debug (plannedOptions e args fs) = Debug (parseArgs args)"
  "Opt (plannedOptions e args fs) = Opt (parseArgs args)"
  "Strict (plannedOptions e args fs) = Strict (parseArgs args)"
  "Std (plannedOptions e args fs) = ''c++20''"
  "ExtraCFlags (plannedOptions e args fs) = []"
  "ExtraLDFlags (plannedOptions e args fs) = []"
  "CXX (plannedOptions e args fs) = CXX (adjustCompiler (parseArgs args))"
  "DetectedDistro (plannedOptions e args fs) = distro e"
  "Sources (plannedOptions e args fs) = discoverSources e"
  "TestSources (plannedOptions e args fs) = testsOf (discoverSources e)"
  "MainSource (plannedOptions e args fs) = findMainSource fs (discoverSources e)"
  by (auto simp: plannedOptions_def planSources_def adjustCompiler_def Let_def parseArgs_const)

lemma headerOptions_fields:
  "Version (headerOptions e args fs) = Version (parseArgs args)"
  "Clean (headerOptions e args fs) = Clean (parseArgs args)"
  "Pro (headerOptions e args fs) = Pro (parseArgs args)"
  "Sloppy (headerOptions e args fs) = Sloppy (parseArgs args)"
  "Test (headerOptions e args fs) = Test (parseArgs args)"
  "Run (headerOptions e args fs) = Run (parseArgs args)"
  "Win64Docker (headerOptions e args fs) = Win64Docker (parseArgs args)"
  "Debug (headerOptions e args fs) = Debug (parseArgs args)"
  "Opt (headerOptions e args fs) = Opt (parseArgs args)"
  "Strict (headerOptions e args fs) = Strict (parseArgs args)"
  "Std (headerOptions e args fs) = ''c++20''"
  "ExtraCFlags (headerOptions e args fs) = []"
  "ExtraLDFlags (headerOptions e args fs) = []"
  "CXX (headerOptions e args fs) = CXX (adjustCompiler (parseArgs args))"
  "DetectedDistro (headerOptions e args fs) = distro e"
  "Sources (headerOptions e args fs) = discoverSources e"
  "TestSources (headerOptions e args fs) = testsOf (discoverSources e)"
  "MainSource (headerOptions e args fs) = findMainSource fs (discoverSources e)"
  "OutputName (headerOptions e args fs) = OutputName (plannedOptions e args fs)"
  by (simp_all add: headerOptions_def plannedOptions_fields)

lemma main_headerStep:
  assumes "\<not> Version (parseArgs args)" "\<not> Clean (parseArgs args)" "discoverSources e \<noteq> []"
  shows "main e args w =
     headerStep e (plannedOptions e args (files w)) (normalOf (discoverSources e))
       (testsOf (discoverSources e)) w"
proof -
  have c: "Clean (plannedOptions e args (files w)) = Clean (parseArgs args)"
    by (rule plannedOptions_fields)
  show ?thesis
    using assms c by (simp add: main_def Let_def plannedOptions_def)
qed

lemma headerStep_planned:
  "headerStep e (plannedOptions e args (files w)) n t w =
     (case (if missingHeaders e args (files w) \<noteq> []
            then pkgDiscovery e (headerOptions e args (files w)) (missingHeaders e args (files w)) w
            else (False, headerOptions e args (files w), w)) of
        (exited, opts3, w3) \<Rightarrow>
          if exited then (Exit1, w3)
          else if Pro opts3 then (Returned, w3)
          else buildStep e opts3 n t w3)"
  by (simp add: headerStep_def Let_def headerOptions_def missingHeaders_def plannedOptions_fields)

lemma runStep_outcome: "fst (runStep e opts w) \<noteq> Exit1"
  by (simp add: runStep_def Let_def split: prod.splits)

lemma testStep_outcome: "fst (testStep e opts tests cc w) \<noteq> Exit1"
  by (simp add: testStep_def runStep_outcome split: prod.splits option.splits)

lemma buildStep_outcome: "fst (buildStep e opts n t w) \<noteq> Exit1"
  by (simp add: buildStep_def Let_def testStep_outcome split: prod.splits option.splits)


lemma runCommand_keeps:
  "cxxcache (snd (runCommand e line opts w)) = cxxcache w"
  "clog (snd (runCommand e line opts w)) = clog w"
  by (auto simp: runCommand_def Let_def spawn_def split: prod.splits)

lemma runStep_keeps:
  "cxxcache (snd (runStep e opts w)) = cxxcache w"
  "clog (snd (runStep e opts w)) = clog w"
proof -
  show "cxxcache (snd (runStep e opts w)) = cxxcache w"
    by (rule runStep_rel [of "\<lambda>w w'. cxxcache w' = cxxcache w"]) simp_all
  show "clog (snd (runStep e opts w)) = clog w"
    by (rule runStep_rel [of "\<lambda>w w'. clog w' = clog w"]) simp_all
qed

lemma testStep_cxxcache: "cxxcache (snd (testStep e opts tests cc w)) = cxxcache w"
  by (rule testStep_rel [of "\<lambda>w w'. cxxcache w' = cxxcache w"]) (simp_all add: runCommand_keeps)


subsection \<open>The two scenario directories\<close>

lemma join_dot: "filepath_Join ''.'' ''main.cpp'' = ''main.cpp''"
  "filepath_Join ''.'' ''util.cpp'' = ''util.cpp''"
  "filepath_Join ''.'' ''util_test.cpp'' = ''util_test.cpp''"
  by code_simp+

lemma suffix_scen: "hasSourceSuffix ''main.cpp''" "hasSourceSuffix ''util.cpp''"
  "hasSourceSuffix ''util_test.cpp''"
  by code_simp+

lemma discover_single: "entries e = [File ''main.cpp''] \<Longrightarrow> discoverSources e = [''main.cpp'']"
  by (simp add: discoverSources_def join_dot suffix_scen strings_HasPrefix_def)

lemma discover_three:
  "entries e = [File ''main.cpp'', File ''util.cpp'', File ''util_test.cpp''] \<Longrightarrow>
   discoverSources e = [''main.cpp'', ''util.cpp'', ''util_test.cpp'']"
  by (simp add: discoverSources_def join_dot suffix_scen strings_HasPrefix_def)

lemma scen_kinds: "\<not> isTestSource ''main.cpp''" "\<not> isTestSource ''util.cpp''"
  "isTestSource ''util_test.cpp''" "isMainName ''main.cpp''"
  by code_simp+

lemma scen_objects: "objectOf ''main.cpp'' = ''main.o''" "objectOf ''util.cpp'' = ''util.o''"
  "objectOf ''util_test.cpp'' = ''util_test.o''"
  "strings_TrimSuffix ''util_test.o'' ''.o'' = ''util_test''"
  by code_simp+

lemma findMain_scen: "findMainSource fs (''main.cpp'' # rest) = ''main.cpp''"
  by (simp add: findMainSource_def scen_kinds)

lemma HasSuffix_append [simp]: "strings_HasSuffix (b @ suf) suf"
  by (simp add: strings_HasSuffix_def)

lemma ensureExeSuffix_idem:
  "ensureExeSuffix e (ensureExeSuffix e b d) d = ensureExeSuffix e b d"
  by (simp add: ensureExeSuffix_def)

lemma guess_main:
  "guessOutputNameFromMain e ''main.cpp'' d =
     ensureExeSuffix e (if filepath_Base (cwd e) = ''src'' then ''main'' else filepath_Base (cwd e)) d"
proof -
  have "strings_TrimSuffix (filepath_Base ''main.cpp'') (filepath_Ext ''main.cpp'') = ''main''"
    by code_simp
  then show ?thesis by (simp add: guessOutputNameFromMain_def ensureExeSuffix_def Let_def)
qed

lemma runStep_procs:
  "procs (snd (runStep e opts w)) = procs w \<or>
   procs (snd (runStep e opts w)) = procs w @ [[''./'' @ OutputName opts]]"
  by (auto simp: runStep_def Let_def spawn_def split: prod.splits)

lemma main_no_missing:
  assumes "\<not> Version (parseArgs args)" "\<not> Clean (parseArgs args)" "\<not> Pro (parseArgs args)"
    and "discoverSources e \<noteq> []" "missingHeaders e args (files w) = []"
  shows "main e args w =
     buildStep e (headerOptions e args (files w)) (normalOf (discoverSources e))
       (testsOf (discoverSources e)) w"
  using main_headerStep [OF assms(1,2,4), of w] assms(3,5)
  by (simp add: headerStep_planned headerOptions_fields)

lemma plannedOptions_OutputName:
  "findMainSource fs (discoverSources e) \<noteq> [] \<Longrightarrow>
   OutputName (plannedOptions e args fs) =
     guessOutputNameFromMain e (findMainSource fs (discoverSources e)) (Win64Docker (parseArgs args))"
  by (auto simp: plannedOptions_def planSources_def adjustCompiler_def Let_def)


subsection \<open>The shape of the compile loops\<close>

lemma compileArgv_OutputName [simp]:
  "compileArgv e (opts\<lparr>OutputName := n\<rparr>) s = compileArgv e opts s"
  by (simp add: compileArgv_def argvOf_def buildCompileCmd_def compileFlags_def Let_def)

lemma compileOne_within:
  "\<exists>cs. procs (snd (snd (compileOne e opts cc s w))) = procs w @ cs \<and>
        set cs \<subseteq> {compileArgv e opts s}"
  by (auto simp: compileOne_procs)

lemma compileSources_within:
  "\<exists>cs. procs (snd (snd (compileSources e opts ss cc w))) = procs w @ cs \<and>
        set cs \<subseteq> compileArgv e opts ` set ss"
proof -
  let ?R = "\<lambda>x y. \<exists>cs. procs (snd y) = procs (snd x) @ cs \<and> set cs \<subseteq> compileArgv e opts ` set ss"
  have "?R (cc, w) (snd (compileSources e opts ss cc w))"
  proof (rule compileSources_rel [of ?R ss e opts ss cc w])
    show "?R x x" for x by simp
    show "?R x z" if "?R x y" "?R y z" for x y z
    proof -
      from that obtain c1 c2 where "procs (snd y) = procs (snd x) @ c1" "procs (snd z) = procs (snd y) @ c2"
        "set c1 \<subseteq> compileArgv e opts ` set ss" "set c2 \<subseteq> compileArgv e opts ` set ss" by blast
      then have "procs (snd z) = procs (snd x) @ (c1 @ c2) \<and> set (c1 @ c2) \<subseteq> compileArgv e opts ` set ss"
        by simp
      then show ?thesis by blast
    qed
    show "?R (cc, w) (snd (compileOne e opts cc s w))" if "s \<in> set ss" for cc s w
      using compileOne_within [of e opts cc s w] that by auto
  qed simp
  then show ?thesis by simp
qed

lemma compileNormal_within:
  "\<exists>cs. procs (snd (snd (compileNormal e opts ss cc w))) = procs w @ cs \<and>
        set cs \<subseteq> compileArgv e opts ` set ss"
proof -
  let ?R = "\<lambda>x y. \<exists>cs. procs (snd y) = procs (snd x) @ cs \<and> set cs \<subseteq> compileArgv e opts ` set ss"
  have "?R (cc, w) (snd (compileNormal e opts ss cc w))"
  proof (rule compileNormal_rel [of ?R ss e opts ss cc w])
    show "?R x x" for x by simp
    show "?R x z" if "?R x y" "?R y z" for x y z
    proof -
      from that obtain c1 c2 where "procs (snd y) = procs (snd x) @ c1" "procs (snd z) = procs (snd y) @ c2"
        "set c1 \<subseteq> compileArgv e opts ` set ss" "set c2 \<subseteq> compileArgv e opts ` set ss" by blast
      then have "procs (snd z) = procs (snd x) @ (c1 @ c2) \<and> set (c1 @ c2) \<subseteq> compileArgv e opts ` set ss"
        by simp
      then show ?thesis by blast
    qed
    show "?R (cc, w) (snd (compileOne e opts cc s w))" if "s \<in> set ss" for cc s w
      using compileOne_within [of e opts cc s w] that by auto
  qed simp
  then show ?thesis by simp
qed

lemma compileSources_objs:
  "fst (compileSources e opts ss cc w) = Inr objs \<Longrightarrow>
   objs = map objectOf (filter (\<lambda>s. Test opts \<or> \<not> isTestSource s) ss)"
proof (induction ss arbitrary: cc w objs)
  case Nil
  then show ?case by simp
next
  case (Cons s ss)
  show ?case
  proof (cases "\<not> Test opts \<and> isTestSource s")
    case True
    then show ?thesis using Cons by simp
  next
    case False
    obtain obj r cc1 w1 where c: "compileOne e opts cc s w = ((obj, r), cc1, w1)"
      by (cases "compileOne e opts cc s w") auto
    have o: "obj = objectOf s" using compileOne_obj [of e opts cc s w] c by simp
    obtain r2 cc2 w2 where c2: "compileSources e opts ss cc1 w1 = (r2, cc2, w2)"
      by (cases "compileSources e opts ss cc1 w1") auto
    from Cons.prems False c c2 obtain objs2 where r: "r = None" "r2 = Inr objs2" "objs = obj # objs2"
      by (cases r; cases r2) auto
    from Cons.IH [of cc1 w1 objs2] c2 r have "objs2 = map objectOf (filter (\<lambda>s. Test opts \<or> \<not> isTestSource s) ss)"
      by simp
    with r o False show ?thesis by auto
  qed
qed

lemma compileNormal_objs:
  "fst (compileNormal e opts ss cc w) = Inr objs \<Longrightarrow>
   objs = map objectOf (filter (\<lambda>s. \<not> isTestSource s) ss)"
proof (induction ss arbitrary: cc w objs)
  case Nil
  then show ?case by simp
next
  case (Cons s ss)
  show ?case
  proof (cases "isTestSource s")
    case True
    then show ?thesis using Cons by simp
  next
    case False
    obtain obj r cc1 w1 where c: "compileOne e opts cc s w = ((obj, r), cc1, w1)"
      by (cases "compileOne e opts cc s w") auto
    have o: "obj = objectOf s" using compileOne_obj [of e opts cc s w] c by simp
    obtain r2 cc2 w2 where c2: "compileNormal e opts ss cc1 w1 = (r2, cc2, w2)"
      by (cases "compileNormal e opts ss cc1 w1") auto
    from Cons.prems False c c2 obtain objs2 where r: "r = None" "r2 = Inr objs2" "objs = obj # objs2"
      by (cases r; cases r2) auto
    from Cons.IH [of cc1 w1 objs2] c2 r have "objs2 = map objectOf (filter (\<lambda>s. \<not> isTestSource s) ss)"
      by simp
    with r o False show ?thesis by auto
  qed
qed

lemma runTests_fail_fast:
  "fst (runTests e opts objs [s] cc w) \<noteq> None \<Longrightarrow>
   runTests e opts objs (s # ss) cc w = runTests e opts objs [s] cc w"
  by (auto simp: Let_def split: prod.splits option.splits if_splits)

lemma parse_test: "parseArgs [''test''] = defaultOptions\<lparr>Test := True\<rparr>"
  by (simp add: parseArgs_def parseArg_def)

lemma compileFlags_cong:
  "Debug a = Debug b \<Longrightarrow> Opt a = Opt b \<Longrightarrow> Strict a = Strict b \<Longrightarrow> Sloppy a = Sloppy b \<Longrightarrow>
   compileFlags a = compileFlags b"
  by (simp add: compileFlags_def Let_def)


subsection \<open>The record of cache calls\<close>

lemma compileOne_clog:
  "\<exists>evs. clog (snd (snd (compileOne e opts cc s w))) = clog w @ evs \<and>
         (\<forall>x. length (filter (isEvalOf x) evs) \<le> count_list [s] x \<and>
              length (filter (isUpdateOf x) evs) \<le> count_list [s] x)"
proof -
  let ?w' = "snd (snd (compileOne e opts cc s w))"
  have "\<exists>u. clog ?w' = clog w @ Evaluated s # u \<and> (u = [] \<or> (\<exists>t. u = [Updated s t]))"
  proof (cases "needsRebuild (files w) s (objectOf s) cc")
    case False
    then show ?thesis by (simp add: compileOne_skip)
  next
    case True
    show ?thesis
      by (simp add: compileOne_run(6) [OF True] split: option.splits)
  qed
  then obtain u where u: "clog ?w' = clog w @ Evaluated s # u" "u = [] \<or> (\<exists>t. u = [Updated s t])"
    by blast
  from u(2) have "\<forall>x. length (filter (isEvalOf x) (Evaluated s # u)) \<le> count_list [s] x \<and>
              length (filter (isUpdateOf x) (Evaluated s # u)) \<le> count_list [s] x"
    by (auto simp: isEvalOf_def isUpdateOf_def)
  with u(1) show ?thesis by blast
qed

lemma compileSources_clog:
  "\<exists>evs. clog (snd (snd (compileSources e opts ss cc w))) = clog w @ evs \<and>
         (\<forall>x. length (filter (isEvalOf x) evs) \<le> count_list ss x \<and>
              length (filter (isUpdateOf x) evs) \<le> count_list ss x)"
proof (induction ss arbitrary: cc w)
  case Nil
  show ?case by simp
next
  case (Cons s ss)
  show ?case
  proof (cases "\<not> Test opts \<and> isTestSource s")
    case True
    from Cons [of cc w] obtain evs where
      e: "clog (snd (snd (compileSources e opts ss cc w))) = clog w @ evs"
         "\<forall>x. length (filter (isEvalOf x) evs) \<le> count_list ss x \<and>
              length (filter (isUpdateOf x) evs) \<le> count_list ss x" by blast
    from e(2) have "\<forall>x. length (filter (isEvalOf x) evs) \<le> count_list (s # ss) x \<and>
              length (filter (isUpdateOf x) evs) \<le> count_list (s # ss) x"
      by (auto intro: le_SucI)
    with e(1) True show ?thesis by auto
  next
    case False
    obtain obj r cc1 w1 where c: "compileOne e opts cc s w = ((obj, r), cc1, w1)"
      by (cases "compileOne e opts cc s w") auto
    from compileOne_clog [of e opts cc s w] c obtain ev1 where
      e1: "clog w1 = clog w @ ev1"
          "\<forall>x. length (filter (isEvalOf x) ev1) \<le> count_list [s] x \<and>
              length (filter (isUpdateOf x) ev1) \<le> count_list [s] x" by auto
    show ?thesis
    proof (cases r)
      case (Some err)
      from e1(2) have "\<forall>x. length (filter (isEvalOf x) ev1) \<le> count_list (s # ss) x \<and>
              length (filter (isUpdateOf x) ev1) \<le> count_list (s # ss) x"
        by (auto intro: le_trans)
      with False c Some e1(1) show ?thesis by auto
    next
      case None
      obtain r2 cc2 w2 where c2: "compileSources e opts ss cc1 w1 = (r2, cc2, w2)"
        by (cases "compileSources e opts ss cc1 w1") auto
      from Cons [of cc1 w1] c2 obtain ev2 where
        e2: "clog w2 = clog w1 @ ev2"
            "\<forall>x. length (filter (isEvalOf x) ev2) \<le> count_list ss x \<and>
              length (filter (isUpdateOf x) ev2) \<le> count_list ss x" by auto
      have w2: "snd (snd (compileSources e opts (s # ss) cc w)) = w2"
        using False c None c2 by (cases r2) auto
      have "clog w2 = clog w @ (ev1 @ ev2)" using e1(1) e2(1) by simp
      moreover have "\<forall>x. length (filter (isEvalOf x) (ev1 @ ev2)) \<le> count_list (s # ss) x \<and>
              length (filter (isUpdateOf x) (ev1 @ ev2)) \<le> count_list (s # ss) x"
      proof
        fix x
        from e1(2) have a: "length (filter (isEvalOf x) ev1) \<le> count_list [s] x"
            "length (filter (isUpdateOf x) ev1) \<le> count_list [s] x" by simp_all
        from e2(2) have b: "length (filter (isEvalOf x) ev2) \<le> count_list ss x"
            "length (filter (isUpdateOf x) ev2) \<le> count_list ss x" by simp_all
        from a b show "length (filter (isEvalOf x) (ev1 @ ev2)) \<le> count_list (s # ss) x \<and>
              length (filter (isUpdateOf x) (ev1 @ ev2)) \<le> count_list (s # ss) x"
          by (auto split: if_splits)
      qed
      ultimately show ?thesis unfolding w2 by blast
    qed
  qed
qed

lemma count_list_distinct: "distinct xs \<Longrightarrow> count_list xs x \<le> 1"
  by (induction xs) auto

lemma compileAndLink_clog:
  "clog (snd (snd (snd (compileAndLink e opts cc w)))) =
   clog (snd (snd (compileSources e opts (Sources opts) cc w)))"
proof -
  obtain r cc1 w1 where c: "compileSources e opts (Sources opts) cc w = (r, cc1, w1)"
    by (cases "compileSources e opts (Sources opts) cc w") auto
  show ?thesis
  proof (cases r)
    case (Inl err)
    with c show ?thesis by (simp add: compileAndLink_def)
  next
    case (Inr objs)
    let ?l = "linkObjects e opts objs (ensureExeSuffix e (OutputName opts) (Win64Docker opts)) w1"
    obtain r2 w2 where l: "?l = (r2, w2)" by (cases ?l)
    have "clog w2 = clog w1"
      using linkObjects_simps(5) [of e opts objs "ensureExeSuffix e (OutputName opts) (Win64Docker opts)" w1] l
      by simp
    with c Inr l show ?thesis by (cases r2) (simp_all add: compileAndLink_def Let_def)
  qed
qed


subsection \<open>Fresh sources stay fresh\<close>

lemma stable_refl [simp]: "stable S fs fs"
  by (auto simp: stable_def split: option.splits)

lemma stable_trans: "stable S a b \<Longrightarrow> stable S b c \<Longrightarrow> stable S a c"
  unfolding stable_def
proof
  fix s
  assume ab: "\<forall>s\<in>set S. b s = a s \<and>
        (case a (objectOf s) of None \<Rightarrow> True
         | Some oi \<Rightarrow> regular oi \<longrightarrow>
             (case b (objectOf s) of None \<Rightarrow> False | Some oi' \<Rightarrow> regular oi' \<and> mtime oi \<le> mtime oi'))"
    and bc: "\<forall>s\<in>set S. c s = b s \<and>
        (case b (objectOf s) of None \<Rightarrow> True
         | Some oi \<Rightarrow> regular oi \<longrightarrow>
             (case c (objectOf s) of None \<Rightarrow> False | Some oi' \<Rightarrow> regular oi' \<and> mtime oi \<le> mtime oi'))"
    and s: "s \<in> set S"
  from ab s have 1: "b s = a s" and 2: "case a (objectOf s) of None \<Rightarrow> True
         | Some oi \<Rightarrow> regular oi \<longrightarrow>
             (case b (objectOf s) of None \<Rightarrow> False | Some oi' \<Rightarrow> regular oi' \<and> mtime oi \<le> mtime oi')"
    by auto
  from bc s have 3: "c s = b s" and 4: "case b (objectOf s) of None \<Rightarrow> True
         | Some oi \<Rightarrow> regular oi \<longrightarrow>
             (case c (objectOf s) of None \<Rightarrow> False | Some oi' \<Rightarrow> regular oi' \<and> mtime oi \<le> mtime oi')"
    by auto
  from 1 2 3 4 show "c s = a s \<and>
        (case a (objectOf s) of None \<Rightarrow> True
         | Some oi \<Rightarrow> regular oi \<longrightarrow>
             (case c (objectOf s) of None \<Rightarrow> False | Some oi' \<Rightarrow> regular oi' \<and> mtime oi \<le> mtime oi'))"
    by (auto split: option.splits)
qed

lemma fresh_stable:
  assumes "stable S fs fs'" "t \<in> set S" "fresh fs cc t"
  shows "fresh fs' cc t"
proof -
  from assms(1,2) have 1: "fs' t = fs t" and 2: "case fs (objectOf t) of None \<Rightarrow> True
         | Some oi \<Rightarrow> regular oi \<longrightarrow>
             (case fs' (objectOf t) of None \<Rightarrow> False | Some oi' \<Rightarrow> regular oi' \<and> mtime oi \<le> mtime oi')"
    by (auto simp: stable_def)
  from assms(3) 1 2 show ?thesis
    by (auto simp: fresh_def needsRebuild_def fileExists_def Let_def split: option.splits if_splits)
qed

lemma fresh_other: "t \<noteq> s \<Longrightarrow> fresh fs (cc(s \<mapsto> v)) t = fresh fs cc t"
  by (auto simp: fresh_def needsRebuild_def timestampOf_def Let_def split: option.splits)

lemma compiled_fresh:
  "compiled fs s \<Longrightarrow> fs s = Some i \<Longrightarrow> fresh fs (cc(s \<mapsto> unixSeconds (mtime i))) s"
  by (auto simp: compiled_def fresh_def needsRebuild_def fileExists_def timestampOf_def Let_def
      split: option.splits)

lemma toolsOK_stable: "toolsOK e S \<Longrightarrow> stable S fs (snd (snd (exec e argv fs)))"
  by (simp add: toolsOK_def)

lemma toolsOK_compiled:
  "toolsOK e S \<Longrightarrow> s \<in> set S \<Longrightarrow> fst (exec e (compileArgv e opts s) fs) \<Longrightarrow>
   compiled (snd (snd (exec e (compileArgv e opts s) fs))) s"
  by (simp add: toolsOK_def)

lemma compileOne_stable:
  "toolsOK e S \<Longrightarrow> stable S (files w) (files (snd (snd (compileOne e opts cc s w))))"
  by (simp add: compileOne_files toolsOK_stable)

lemma runCommand_stable:
  assumes "toolsOK e S"
  shows "stable S (files w) (files (snd (runCommand e line opts w)))"
proof (cases "strings_Fields line = []")
  case True
  then show ?thesis by (simp add: runCommand_def Let_def)
next
  case False
  show ?thesis
    unfolding runCommand_simps(2) [OF False] using assms by (rule toolsOK_stable)
qed

lemma spawn_stable:
  "toolsOK e S \<Longrightarrow> stable S (files w) (files (snd (snd (spawn e argv w))))"
  by (simp add: toolsOK_stable)

lemma compileOne_fresh:
  assumes ok: "toolsOK e S" and s: "s \<in> set S"
    and r: "snd (fst (compileOne e opts cc s w)) = None"
  shows "fresh (files (snd (snd (compileOne e opts cc s w)))) (fst (snd (compileOne e opts cc s w))) s"
    and "t \<in> set S \<Longrightarrow> fresh (files w) cc t \<Longrightarrow>
         fresh (files (snd (snd (compileOne e opts cc s w)))) (fst (snd (compileOne e opts cc s w))) t"
proof -
  let ?c = "compileOne e opts cc s w"
  have both: "fresh (files (snd (snd ?c))) (fst (snd ?c)) s \<and>
      (\<forall>t\<in>set S. fresh (files w) cc t \<longrightarrow> fresh (files (snd (snd ?c))) (fst (snd ?c)) t)"
  proof (cases "needsRebuild (files w) s (objectOf s) cc")
    case False
    then show ?thesis by (simp add: compileOne_skip fresh_def)
  next
    case True
    let ?x = "exec e (compileArgv e opts s) (files w)"
    let ?fs = "snd (snd ?x)"
    note cr = compileOne_run [OF True, of e opts]
    from r have okx: "fst ?x" by (simp add: cr split: if_splits)
    have st: "stable S (files w) ?fs" using ok by (rule toolsOK_stable)
    have cp: "compiled ?fs s" using ok s okx by (rule toolsOK_compiled)
    then obtain i where i: "?fs s = Some i" by (auto simp: compiled_def split: option.splits)
    have fl: "files (snd (snd ?c)) = ?fs" by (simp add: cr)
    have cc': "fst (snd ?c) = cc(s \<mapsto> unixSeconds (mtime i))" using okx i by (simp add: cr)
    have a: "fresh ?fs (cc(s \<mapsto> unixSeconds (mtime i))) s" using cp i by (rule compiled_fresh)
    have b: "fresh ?fs (cc(s \<mapsto> unixSeconds (mtime i))) t" if t: "t \<in> set S" "fresh (files w) cc t" for t
    proof (cases "t = s")
      case True
      with a show ?thesis by simp
    next
      case False
      from fresh_stable [OF st t] have "fresh ?fs cc t" .
      with False show ?thesis by (simp add: fresh_other)
    qed
    from a b show ?thesis unfolding fl cc' by blast
  qed
  from both show "fresh (files (snd (snd ?c))) (fst (snd ?c)) s" by blast
  from both show "t \<in> set S \<Longrightarrow> fresh (files w) cc t \<Longrightarrow>
         fresh (files (snd (snd ?c))) (fst (snd ?c)) t" by blast
qed

lemma compileSources_fresh:
  assumes ok: "toolsOK e S"
  shows "set ss \<subseteq> set S \<Longrightarrow> compileSources e opts ss cc w = (Inr objs, cc', w') \<Longrightarrow>
     (\<forall>t\<in>set S. fresh (files w) cc t \<longrightarrow> fresh (files w') cc' t) \<and>
     (\<forall>s\<in>set ss. Test opts \<or> \<not> isTestSource s \<longrightarrow> fresh (files w') cc' s)"
proof (induction ss arbitrary: cc w objs)
  case Nil
  then show ?case by simp
next
  case (Cons s ss)
  show ?case
  proof (cases "\<not> Test opts \<and> isTestSource s")
    case True
    with Cons.prems have "compileSources e opts ss cc w = (Inr objs, cc', w')" by simp
    with Cons.IH [of cc w objs] Cons.prems(1) True show ?thesis by auto
  next
    case False
    obtain obj r cc1 w1 where c: "compileOne e opts cc s w = ((obj, r), cc1, w1)"
      by (cases "compileOne e opts cc s w") auto
    obtain r2 cc2 w2 where c2: "compileSources e opts ss cc1 w1 = (r2, cc2, w2)"
      by (cases "compileSources e opts ss cc1 w1") auto
    from Cons.prems(2) False c c2 obtain objs2 where
      r: "r = None" "r2 = Inr objs2" "cc2 = cc'" "w2 = w'"
      by (cases r; cases r2) auto
    from Cons.prems(1) have sS: "s \<in> set S" and ssS: "set ss \<subseteq> set S" by auto
    have rn: "snd (fst (compileOne e opts cc s w)) = None" using c r by simp
    have f1: "fresh (files w1) cc1 s"
      using compileOne_fresh(1) [OF ok sS rn] c by simp
    have k1: "fresh (files w1) cc1 t" if "t \<in> set S" "fresh (files w) cc t" for t
      using compileOne_fresh(2) [OF ok sS rn that] c by simp
    from Cons.IH [OF ssS, of cc1 w1 objs2] c2 r
    have ih: "\<forall>t\<in>set S. fresh (files w1) cc1 t \<longrightarrow> fresh (files w') cc' t"
      "\<forall>s\<in>set ss. Test opts \<or> \<not> isTestSource s \<longrightarrow> fresh (files w') cc' s" by auto
    from ih(1) f1 sS have "fresh (files w') cc' s" by blast
    moreover from ih(1) k1 have "\<forall>t\<in>set S. fresh (files w) cc t \<longrightarrow> fresh (files w') cc' t" by blast
    ultimately show ?thesis using ih(2) by auto
  qed
qed

lemma compileSources_all_fresh:
  "\<forall>s\<in>set ss. Test opts \<or> \<not> isTestSource s \<longrightarrow> fresh (files w) cc s \<Longrightarrow>
   compileSources e opts ss cc w =
     (Inr (map objectOf (filter (\<lambda>s. Test opts \<or> \<not> isTestSource s) ss)), cc,
      w\<lparr>clog := clog w @ map Evaluated (filter (\<lambda>s. Test opts \<or> \<not> isTestSource s) ss)\<rparr>)"
proof (induction ss arbitrary: w)
  case Nil
  show ?case by simp
next
  case (Cons s ss)
  show ?case
  proof (cases "\<not> Test opts \<and> isTestSource s")
    case True
    with Cons show ?thesis by simp
  next
    case False
    with Cons.prems have f: "fresh (files w) cc s" by auto
    let ?w1 = "w\<lparr>clog := clog w @ [Evaluated s]\<rparr>"
    have c: "compileOne e opts cc s w = ((objectOf s, None), cc, ?w1)"
      using f by (simp add: compileOne_skip fresh_def)
    have "\<forall>s\<in>set ss. Test opts \<or> \<not> isTestSource s \<longrightarrow> fresh (files ?w1) cc s"
      using Cons.prems by simp
    from Cons.IH [OF this] False c show ?thesis by auto
  qed
qed

section \<open>Staleness\<close>

text \<open>
  C2, as stated: \<open>needsRebuild\<close> is true exactly when the object does not exist, or the
  object is older than the source, or the cached time stamp differs from the source's
  modification time. This fails where the source cannot be stat'ed: the object exists, no
  time of the source precedes or differs from anything, and \<open>needsRebuild\<close> is true.
\<close>

theorem C2_counterexample:
  "needsRebuild danglingFs ''x.cpp'' ''x.o'' Map.empty \<and>
   \<not> staleBySpec danglingFs ''x.cpp'' ''x.o'' Map.empty"
  by (simp add: needsRebuild_def staleBySpec_def danglingFs_def fileExists_def)

text \<open>
  C2, amended: \<open>needsRebuild\<close> is true exactly when the source cannot be stat'ed, or the
  object is not an existing regular file, or the object's modification time is before the
  source's, or the cached time stamp of the source (zero when none is recorded) differs
  from the source's modification time in whole seconds.
\<close>

theorem C2_needsRebuild:
  "needsRebuild fs src obj cc = (fs src = None \<or> staleBySpec fs src obj cc)"
  by (auto simp: needsRebuild_def staleBySpec_def fileExists_def Let_def split: option.splits)

theorem C2_needsRebuild_witness:
  "\<not> needsRebuild freshFs ''a.cpp'' ''a.o'' [''a.cpp'' \<mapsto> 7] \<and>
   needsRebuild freshFs ''a.cpp'' ''a.o'' [''a.cpp'' \<mapsto> 6]"
  using C2_needsRebuild [of freshFs "''a.cpp''" "''a.o''" "[''a.cpp'' \<mapsto> 7]"]
        C2_needsRebuild [of freshFs "''a.cpp''" "''a.o''" "[''a.cpp'' \<mapsto> 6]"]
  by (simp add: staleBySpec_def freshFs_def fileExists_def timestampOf_def unixSeconds_def)

section \<open>Classification\<close>

text \<open>
  C8: for every set of discovered sources the classification is a partition. With the
  options as \<open>main\<close> plans them, a source is a test (it is in \<open>TestSources\<close>), the entry
  point (it is \<open>MainSource\<close>) or normal (it is among the other sources and is not
  \<open>MainSource\<close>): exactly one of the three holds for each source, and at most one source is
  the entry point.
\<close>

theorem C8_partition:
  assumes "distinct srcs"
  shows "(\<forall>s\<in>set srcs.
            (let p = planSources e fs opts srcs;
                 T = (s \<in> set (TestSources p));
                 E = (s = MainSource p);
                 N = (s \<in> set (normalOf srcs) \<and> s \<noteq> MainSource p)
             in (T \<or> E \<or> N) \<and> \<not> (T \<and> E) \<and> \<not> (T \<and> N) \<and> \<not> (E \<and> N))) \<and>
         length (filter (\<lambda>s. s = MainSource (planSources e fs opts srcs)) srcs) \<le> 1"
proof -
  have "length (filter (\<lambda>s. s = m) srcs) \<le> 1" for m
    using assms by (induction srcs) (auto simp: filter_empty_conv)
  then have "length (filter (\<lambda>s. s = findMainSource fs srcs) srcs) \<le> 1" .
  then show ?thesis
    using findMainSource_not_test [of fs srcs]
    by (auto simp: planSources_fields Let_def testsOf_def normalOf_def)
qed

theorem C8_partition_witness:
  "distinct (discoverSources envB) \<and>
   MainSource (planSources envB (files worldB) defaultOptions (discoverSources envB)) = ''main.cpp'' \<and>
   length (filter (\<lambda>s. s = MainSource (planSources envB (files worldB) defaultOptions (discoverSources envB)))
             (discoverSources envB)) \<le> 1"
proof -
  have d: "distinct (discoverSources envB)" by code_simp
  have m: "MainSource (planSources envB (files worldB) defaultOptions (discoverSources envB)) = ''main.cpp''"
    by code_simp
  from C8_partition [OF d, of envB "files worldB" defaultOptions] d m show ?thesis by simp
qed

section \<open>Objects\<close>

text \<open>
  C10: the object of a source in the multi-step strategy depends only on the base name of
  the source. It is the base name with the extension replaced by \<open>.o\<close>, a name in the
  working directory; two discovered sources with one base name get one object, whatever
  their directories, \<open>compileOne\<close> returns that object for both, and the compile command
  of the second writes to the object of the first.
\<close>

theorem C10_object_of_base_name:
  assumes "s1 \<in> set (discoverSources e)" "s2 \<in> set (discoverSources e)"
    and "filepath_Base s1 = filepath_Base s2"
  shows "objectOf s1 = objectOf s2 \<and>
         objectOf s1 =
           strings_TrimSuffix (filepath_Base s1) (filepath_Ext (filepath_Base s1)) @ ''.o'' \<and>
         CHR ''/'' \<notin> set (objectOf s1) \<and>
         fst (fst (compileOne e1 opts1 cc1 s1 w1)) = fst (fst (compileOne e2 opts2 cc2 s2 w2)) \<and>
         procs (snd (snd (compileOne e2 opts2 cc2 s2 w2))) =
           procs w2 @
           (if needsRebuild (files w2) s2 (objectOf s1) cc2
            then [argvOf e2 opts2 (buildCompileCmd opts2 s2 (objectOf s1))] else [])"
proof -
  from assms(1) have a: "s1 \<noteq> []" "last s1 \<noteq> CHR ''/''"
    using hasSourceSuffix_last discoverSources_suffix by blast+
  from assms(2) have b: "s2 \<noteq> []" "last s2 \<noteq> CHR ''/''"
    using hasSourceSuffix_last discoverSources_suffix by blast+
  have eq: "objectOf s1 = objectOf s2"
    using objectOf_Base [OF a] objectOf_Base [OF b] assms(3) by simp
  show ?thesis
    using eq objectOf_Base [OF a] objectOf_no_slash [OF a]
    by (simp add: compileOne_procs compileArgv_def)
qed

theorem C10_object_of_base_name_witness:
  "''a/x.cpp'' \<in> set (discoverSources envC) \<and> ''b/x.cpp'' \<in> set (discoverSources envC) \<and>
   filepath_Base ''a/x.cpp'' = filepath_Base ''b/x.cpp'' \<and>
   objectOf ''a/x.cpp'' = objectOf ''b/x.cpp'' \<and>
   objectOf ''b/x.cpp'' = ''x.o'' \<and>
   map_option content
     (files (snd (snd (compileOne envC defaultOptions Map.empty ''b/x.cpp''
        (snd (snd (compileOne envC defaultOptions Map.empty ''a/x.cpp'' worldC)))))) ''x.o'') =
     Some ''object of b/x.cpp''"
proof -
  have m1: "''a/x.cpp'' \<in> set (discoverSources envC)" by code_simp
  have m2: "''b/x.cpp'' \<in> set (discoverSources envC)" by code_simp
  have bs: "filepath_Base ''a/x.cpp'' = filepath_Base ''b/x.cpp''" by code_simp
  have o: "objectOf ''b/x.cpp'' = ''x.o''" by code_simp
  have c: "map_option content
     (files (snd (snd (compileOne envC defaultOptions Map.empty ''b/x.cpp''
        (snd (snd (compileOne envC defaultOptions Map.empty ''a/x.cpp'' worldC)))))) ''x.o'') =
     Some ''object of b/x.cpp''" by code_simp
  from C10_object_of_base_name [OF m1 m2 bs] m1 m2 bs o c show ?thesis by simp
qed

section \<open>Header resolution\<close>

lemma checkMissingHeaders_filter:
  "checkMissingHeaders fs incs opts = filter (\<lambda>h. resolveHeader fs opts h = Missing) incs"
  by (induction incs) (simp_all split: resolution.split)

text \<open>
  C5: a header is satisfied exactly when its name without the extension, in lower case and
  without one leading \<open>c\<close>, is on the allow-list, or the file exists under a local include
  directory, or under a system include directory; the local directories are looked at
  first, so a header found in both counts as local; and every header given to
  \<open>checkMissingHeaders\<close> is either satisfied or in the list of missing headers, never both.
\<close>

theorem C5_header_resolution:
  "(resolveHeader fs opts h \<noteq> Missing) = satisfiedBySpec fs opts h \<and>
   (h \<in> set (checkMissingHeaders fs incs opts)) = (h \<in> set incs \<and> \<not> satisfiedBySpec fs opts h) \<and>
   (resolveHeader fs opts h = SatisfiedStandard) = isStdInclude h \<and>
   (resolveHeader fs opts h = SatisfiedLocal) =
     (\<not> isStdInclude h \<and> list_ex (\<lambda>d. fileExists fs (filepath_Join d h)) (IncludeDirs opts)) \<and>
   (resolveHeader fs opts h = SatisfiedSystem) =
     (\<not> isStdInclude h \<and> \<not> list_ex (\<lambda>d. fileExists fs (filepath_Join d h)) (IncludeDirs opts) \<and>
      list_ex (\<lambda>d. fileExists fs (filepath_Join d h)) (SystemIncludeDirs opts))"
proof -
  have a: "(resolveHeader fs opts h \<noteq> Missing) = satisfiedBySpec fs opts h"
    by (simp add: resolveHeader_def satisfiedBySpec_def isStdInclude_def Let_def)
  have b: "(h \<in> set (checkMissingHeaders fs incs opts)) =
      (h \<in> set incs \<and> resolveHeader fs opts h = Missing)"
    by (simp add: checkMissingHeaders_filter)
  have c: "(resolveHeader fs opts h = SatisfiedStandard) = isStdInclude h"
    by (simp add: resolveHeader_def)
  have d: "(resolveHeader fs opts h = SatisfiedLocal) =
     (\<not> isStdInclude h \<and> list_ex (\<lambda>d. fileExists fs (filepath_Join d h)) (IncludeDirs opts))"
    by (simp add: resolveHeader_def)
  have e: "(resolveHeader fs opts h = SatisfiedSystem) =
     (\<not> isStdInclude h \<and> \<not> list_ex (\<lambda>d. fileExists fs (filepath_Join d h)) (IncludeDirs opts) \<and>
      list_ex (\<lambda>d. fileExists fs (filepath_Join d h)) (SystemIncludeDirs opts))"
    by (simp add: resolveHeader_def)
  from a b c d e show ?thesis by blast
qed

lemmas headerEval = resolveHeader_def isStdInclude_def strings_ToLower_def lowerChar_def
  strings_TrimSuffix_def strings_HasSuffix_def strings_TrimPrefix_def strings_HasPrefix_def
  filepath_Ext_def lastElem_def stdIncludesSkipList_def headerOpts_def headerFs_def
  defaultOptions_def discoverLocalIncludeDirs_def discoverSystemIncludeDirs_def fileExists_def
  filepath_Join_def filepath_Clean_def cleanStep_def sourceFile_def Let_def

theorem C5_header_resolution_witness:
  "resolveHeader headerFs headerOpts ''util.h'' = SatisfiedLocal \<and>
   resolveHeader headerFs headerOpts ''zlib.h'' = SatisfiedSystem \<and>
   resolveHeader headerFs headerOpts ''String.h'' = SatisfiedStandard \<and>
   checkMissingHeaders headerFs [''util.h'', ''boost/any.hpp'', ''zlib.h'', ''String.h''] headerOpts =
     [''boost/any.hpp''] \<and>
   satisfiedBySpec headerFs headerOpts ''util.h''"
proof -
  have a: "resolveHeader headerFs headerOpts ''util.h'' = SatisfiedLocal" by (simp add: headerEval)
  have b: "resolveHeader headerFs headerOpts ''zlib.h'' = SatisfiedSystem" by (simp add: headerEval)
  have c: "resolveHeader headerFs headerOpts ''String.h'' = SatisfiedStandard" by (simp add: headerEval)
  have d: "checkMissingHeaders headerFs [''util.h'', ''boost/any.hpp'', ''zlib.h'', ''String.h''] headerOpts =
     [''boost/any.hpp'']" by (simp add: headerEval)
  from C5_header_resolution [of headerFs headerOpts "''util.h''" "[]"] a b c d
  show ?thesis by simp
qed

section \<open>Missing headers\<close>

text \<open>
  C4: when the run reaches header resolution (no version request, no clean request, at
  least one source) and a header is missing, then outside sloppy mode every missing header
  is printed, the run ends with exit status 1, and the only processes started are the
  package queries for the missing headers, so no compiler runs; in sloppy mode (and
  without the request for a project file, which ends the run without building in any
  mode) the run goes on into the build step with the options and the world that
  \<open>pkgDiscovery\<close> leaves, and the build step starts at least one process.
\<close>

theorem C4_missing_headers:
  assumes "\<not> Version (parseArgs args)" "\<not> Clean (parseArgs args)" "discoverSources e \<noteq> []"
    and "missingHeaders e args (files w) \<noteq> []"
  shows "(\<not> Sloppy (parseArgs args) \<longrightarrow>
            fst (main e args w) = Exit1 \<and>
            (\<forall>h\<in>set (missingHeaders e args (files w)). ''   '' @ h \<in> set (out (snd (main e args w)))) \<and>
            (\<exists>ps. procs (snd (main e args w)) = procs w @ ps \<and>
                  set ps \<subseteq> pkgQuery (distro e) ` set (missingHeaders e args (files w)))) \<and>
         (Sloppy (parseArgs args) \<and> \<not> Pro (parseArgs args) \<longrightarrow>
            fst (main e args w) \<noteq> Exit1 \<and>
            (let r = pkgDiscovery e (headerOptions e args (files w)) (missingHeaders e args (files w)) w
             in main e args w =
                  buildStep e (fst (snd r)) (normalOf (discoverSources e))
                    (testsOf (discoverSources e)) (snd (snd r)) \<and>
                length (procs (snd (snd r))) < length (procs (snd (main e args w)))))"
proof -
  let ?ho = "headerOptions e args (files w)"
  let ?mi = "missingHeaders e args (files w)"
  let ?n = "normalOf (discoverSources e)"
  let ?t = "testsOf (discoverSources e)"
  let ?r = "pkgDiscovery e ?ho ?mi w"
  obtain x opts3 w3 where r: "?r = (x, opts3, w3)" by (cases ?r) auto
  have x: "x = (\<not> Sloppy (parseArgs args))"
    using pkgDiscovery_exit [of e ?ho ?mi w] r by (simp add: headerOptions_fields)
  have "coreOptions opts3 = coreOptions ?ho" using pkgDiscovery_core [of e ?ho ?mi w] r by simp
  then have "Pro opts3 = Pro ?ho" by (rule coreOptions_fields)
  then have pro: "Pro opts3 = Pro (parseArgs args)" by (simp add: headerOptions_fields)
  have m: "main e args w =
      (if x then (Exit1, w3) else if Pro opts3 then (Returned, w3) else buildStep e opts3 ?n ?t w3)"
    using main_headerStep [OF assms(1-3), of w] assms(4) r by (simp add: headerStep_planned)
  note pw = pkgDiscovery_world [of e ?ho ?mi w]
  have a: "\<not> Sloppy (parseArgs args) \<longrightarrow>
            fst (main e args w) = Exit1 \<and>
            (\<forall>h\<in>set ?mi. ''   '' @ h \<in> set (out (snd (main e args w)))) \<and>
            (\<exists>ps. procs (snd (main e args w)) = procs w @ ps \<and> set ps \<subseteq> pkgQuery (distro e) ` set ?mi)"
    using m x pw r by (simp add: headerOptions_fields)
  have b: "Sloppy (parseArgs args) \<and> \<not> Pro (parseArgs args) \<longrightarrow>
            fst (main e args w) \<noteq> Exit1 \<and>
            (let r = ?r
             in main e args w = buildStep e (fst (snd r)) ?n ?t (snd (snd r)) \<and>
                length (procs (snd (snd r))) < length (procs (snd (main e args w))))"
    using m x pro r buildStep_outcome [of e opts3 ?n ?t w3] buildStep_grows [of w3 e opts3 ?n ?t]
    by (simp add: Let_def)
  from a b show ?thesis by blast
qed

theorem C4_missing_headers_witness:
  "\<not> Version (parseArgs []) \<and> \<not> Clean (parseArgs []) \<and>
   discoverSources envH = [''main.cpp''] \<and>
   missingHeaders envH [] (files worldH) = [''boost/lexical_cast.hpp''] \<and>
   \<not> Sloppy (parseArgs []) \<and>
   fst (main envH [] worldH) = Exit1 \<and>
   ''   boost/lexical_cast.hpp'' \<in> set (out (snd (main envH [] worldH))) \<and>
   Sloppy (parseArgs [''sloppy'']) \<and>
   fst (main envH [''sloppy''] worldH) = Returned"
proof -
  have v: "\<not> Version (parseArgs [])" by code_simp
  have c: "\<not> Clean (parseArgs [])" by code_simp
  have s: "\<not> Sloppy (parseArgs [])" by code_simp
  have d: "discoverSources envH = [''main.cpp'']" by code_simp
  have m: "missingHeaders envH [] (files worldH) = [''boost/lexical_cast.hpp'']" by code_simp
  have s2: "Sloppy (parseArgs [''sloppy''])" by code_simp
  have r2: "fst (main envH [''sloppy''] worldH) = Returned" by code_simp
  from d have d': "discoverSources envH \<noteq> []" by simp
  from m have m': "missingHeaders envH [] (files worldH) \<noteq> []" by simp
  from C4_missing_headers [OF v c d' m'] s m
  have "fst (main envH [] worldH) = Exit1 \<and>
        ''   boost/lexical_cast.hpp'' \<in> set (out (snd (main envH [] worldH)))"
    by simp
  with v c s d m s2 r2 show ?thesis by simp
qed

section \<open>The choice of the strategy\<close>

text \<open>
  C1: the build step of \<open>main\<close> (lines 133 to 145, with the test and run steps that
  follow) takes the single-step strategy exactly when there is one normal source, no test
  source, and test mode is off. Then it is \<open>singleStepBuild\<close> on that source followed by
  the run step: one process is started for the build, with the single command line, the
  staleness cache is not evaluated or updated, and the cache file is left as it was. In
  every other case it is \<open>compileAndLink\<close> with the loaded cache, then \<open>saveCache\<close> and
  the test step; a run that returns has stored the cache that \<open>compileAndLink\<close> left.
\<close>

theorem C1_strategy:
  "(length normalSources = 1 \<and> length testSources = 0 \<and> \<not> Test opts \<longrightarrow>
      buildStep e opts normalSources testSources w =
        (case singleStepBuild e opts (normalSources ! 0) w of
           (Some err, opts', w') \<Rightarrow> (Fatal ''Build error:'' err, w')
         | (None, opts', w') \<Rightarrow> runStep e opts' w') \<and>
      procs (snd (snd (singleStepBuild e opts (normalSources ! 0) w))) =
        procs w @ [argvOf e opts (singleStepLine e opts (normalSources ! 0))] \<and>
      clog (snd (buildStep e opts normalSources testSources w)) = clog w \<and>
      cxxcache (snd (buildStep e opts normalSources testSources w)) = cxxcache w) \<and>
   (\<not> (length normalSources = 1 \<and> length testSources = 0 \<and> \<not> Test opts) \<longrightarrow>
      buildStep e opts normalSources testSources w =
        (case compileAndLink e opts (loadCache w) w of
           (Some err, opts', cc', w') \<Rightarrow> (Fatal ''Build error:'' err, w')
         | (None, opts', cc', w') \<Rightarrow> testStep e opts' testSources cc' (saveCache cc' w')) \<and>
      (fst (buildStep e opts normalSources testSources w) = Returned \<longrightarrow>
         cxxcache (snd (buildStep e opts normalSources testSources w)) =
           Stored (fst (snd (snd (compileAndLink e opts (loadCache w) w))))))"
proof -
  let ?b = "buildStep e opts normalSources testSources w"
  have a: "buildStep e opts normalSources testSources w =
        (case singleStepBuild e opts (normalSources ! 0) w of
           (Some err, opts', w') \<Rightarrow> (Fatal ''Build error:'' err, w')
         | (None, opts', w') \<Rightarrow> runStep e opts' w') \<and>
      procs (snd (snd (singleStepBuild e opts (normalSources ! 0) w))) =
        procs w @ [argvOf e opts (singleStepLine e opts (normalSources ! 0))] \<and>
      clog (snd ?b) = clog w \<and> cxxcache (snd ?b) = cxxcache w"
    if c: "length normalSources = 1 \<and> length testSources = 0 \<and> \<not> Test opts"
  proof -
    let ?s = "singleStepBuild e opts (normalSources ! 0) w"
    obtain r opts1 w1 where s: "?s = (r, opts1, w1)" by (cases ?s) auto
    have t: "Test opts1 = Test opts"
      using singleStepBuild_simps(6) [of e opts "normalSources ! 0" w] s by (auto split: if_splits)
    have k: "clog w1 = clog w" "cxxcache w1 = cxxcache w"
      using singleStepBuild_simps(4,5) [of e opts "normalSources ! 0" w] s by simp_all
    have eq: "?b = (case ?s of
           (Some err, opts', w') \<Rightarrow> (Fatal ''Build error:'' err, w')
         | (None, opts', w') \<Rightarrow> runStep e opts' w')"
      using c s t by (cases r) (simp_all add: buildStep_def singleStep_def testStep_def)
    have "clog (snd ?b) = clog w \<and> cxxcache (snd ?b) = cxxcache w"
      unfolding eq using s k by (cases r) (simp_all add: runStep_keeps)
    with eq show ?thesis by (simp add: singleStepBuild_simps)
  qed
  have b: "buildStep e opts normalSources testSources w =
        (case compileAndLink e opts (loadCache w) w of
           (Some err, opts', cc', w') \<Rightarrow> (Fatal ''Build error:'' err, w')
         | (None, opts', cc', w') \<Rightarrow> testStep e opts' testSources cc' (saveCache cc' w')) \<and>
      (fst ?b = Returned \<longrightarrow>
         cxxcache (snd ?b) = Stored (fst (snd (snd (compileAndLink e opts (loadCache w) w)))))"
    if c: "\<not> (length normalSources = 1 \<and> length testSources = 0 \<and> \<not> Test opts)"
  proof -
    let ?c = "compileAndLink e opts (loadCache w) w"
    obtain r opts1 cc1 w1 where s: "?c = (r, opts1, cc1, w1)" by (cases ?c) auto
    have eq: "?b = (case ?c of
           (Some err, opts', cc', w') \<Rightarrow> (Fatal ''Build error:'' err, w')
         | (None, opts', cc', w') \<Rightarrow> testStep e opts' testSources cc' (saveCache cc' w'))"
      using c by (auto simp: buildStep_def singleStep_def Let_def)
    have "cxxcache (snd (testStep e opts1 testSources cc1 (saveCache cc1 w1))) = Stored cc1"
      by (simp add: testStep_cxxcache saveCache_def)
    then have "fst ?b = Returned \<longrightarrow> cxxcache (snd ?b) = Stored (fst (snd (snd ?c)))"
      unfolding eq using s by (cases r) simp_all
    with eq show ?thesis by simp
  qed
  from a b show ?thesis by blast
qed

theorem C1_strategy_witness:
  "length (normalOf (discoverSources envA)) = 1 \<and>
   length (testsOf (discoverSources envA)) = 0 \<and>
   \<not> Test (headerOptions envA [] (files worldA)) \<and>
   clog (snd (buildStep envA (headerOptions envA [] (files worldA)) (normalOf (discoverSources envA))
     (testsOf (discoverSources envA)) worldA)) = [] \<and>
   cxxcache (snd (buildStep envA (headerOptions envA [] (files worldA)) (normalOf (discoverSources envA))
     (testsOf (discoverSources envA)) worldA)) = NoCacheFile \<and>
   Test (headerOptions envB [''test''] (files worldB)) \<and>
   fst (buildStep envB (headerOptions envB [''test''] (files worldB)) (normalOf (discoverSources envB))
     (testsOf (discoverSources envB)) worldB) = Returned \<and>
   cxxcache (snd (buildStep envB (headerOptions envB [''test''] (files worldB))
     (normalOf (discoverSources envB)) (testsOf (discoverSources envB)) worldB)) =
     Stored (fst (snd (snd (compileAndLink envB (headerOptions envB [''test''] (files worldB))
       (loadCache worldB) worldB))))"
proof -
  have n: "length (normalOf (discoverSources envA)) = 1" by code_simp
  have t: "length (testsOf (discoverSources envA)) = 0" by code_simp
  have m: "\<not> Test (headerOptions envA [] (files worldA))" by code_simp
  have w: "clog worldA = []" "cxxcache worldA = NoCacheFile"
    by (simp_all add: worldA_def emptyWorld_def)
  have tb: "Test (headerOptions envB [''test''] (files worldB))" by code_simp
  have rb: "fst (buildStep envB (headerOptions envB [''test''] (files worldB))
     (normalOf (discoverSources envB)) (testsOf (discoverSources envB)) worldB) = Returned"
    by code_simp
  let ?bA = "buildStep envA (headerOptions envA [] (files worldA)) (normalOf (discoverSources envA))
     (testsOf (discoverSources envA)) worldA"
  let ?bB = "buildStep envB (headerOptions envB [''test''] (files worldB))
     (normalOf (discoverSources envB)) (testsOf (discoverSources envB)) worldB"
  from C1_strategy [of "normalOf (discoverSources envA)" "testsOf (discoverSources envA)"
      "headerOptions envA [] (files worldA)" envA worldA] n t m
  have a: "clog (snd ?bA) = clog worldA \<and> cxxcache (snd ?bA) = cxxcache worldA"
    by blast
  from C1_strategy [of "normalOf (discoverSources envB)" "testsOf (discoverSources envB)"
      "headerOptions envB [''test''] (files worldB)" envB worldB] tb rb
  have b: "cxxcache (snd ?bB) =
     Stored (fst (snd (snd (compileAndLink envB (headerOptions envB [''test''] (files worldB))
       (loadCache worldB) worldB))))"
    by blast
  from a b n t m w tb rb show ?thesis by simp
qed

section \<open>Scenario A\<close>

text \<open>
  C9, as stated: in a directory whose only source is \<open>main.cpp\<close>, with an entry-point
  signature, the single command line ends in \<open>main.cpp -o main\<close>. In the directory
  \<open>/home/user/hello\<close> the program names the artifact after the directory: the one
  process it starts ends in \<open>main.cpp -o hello\<close>.
\<close>

theorem C9_counterexample:
  "discoverSources envA = [''main.cpp''] \<and>
   hasMainText (files worldA) ''main.cpp'' \<and>
   procs (snd (main envA [] worldA)) =
     [[''g++'', ''-std=c++20'', ''-pipe'', ''-fPIC'', ''-fno-plt'', ''-fstack-protector-strong'',
       ''-Wall'', ''-Wshadow'', ''-Wpedantic'', ''-Wno-parentheses'', ''-Wfatal-errors'', ''-Wvla'',
       ''-Wignored-qualifiers'', ''main.cpp'', ''-o'', ''hello'']]"
  by code_simp

text \<open>
  C9, amended: in a directory whose only discovered source is \<open>main.cpp\<close> (whatever
  else the directory holds: headers, objects, the artifact of an earlier build), when no header is
  missing and neither test mode nor a version, clean or project-file request is given,
  the single-step strategy is selected and the first process started is the command line
  \<open><toolchain> -std=c++20 <flags> main.cpp -o <name>\<close>, where the name is the base name of
  the working directory, or \<open>main\<close> when the working directory is named \<open>src\<close> (with
  \<open>.exe\<close> appended when cross-compiling or on Windows); the only process that can follow
  is the run of that artifact.
\<close>

theorem C9_single_main:
  assumes "discoverSources e = [''main.cpp'']"
    and "\<not> Version (parseArgs args)" "\<not> Clean (parseArgs args)" "\<not> Pro (parseArgs args)"
    and "\<not> Test (parseArgs args)"
    and "missingHeaders e args (files w) = []"
  shows "singleStep (headerOptions e args (files w)) (normalOf (discoverSources e))
           (testsOf (discoverSources e)) \<and>
         (let opts = headerOptions e args (files w);
              name = ensureExeSuffix e
                (if filepath_Base (cwd e) = ''src'' then ''main'' else filepath_Base (cwd e))
                (Win64Docker (parseArgs args));
              line = CXX opts @ '' -std=c++20 '' @ compileFlags opts @ ''  main.cpp -o '' @ name
          in \<exists>rest. procs (snd (main e args w)) = procs w @ argvOf e opts line # rest \<and>
                    (rest = [] \<or> rest = [[''./'' @ name]]))"
proof -
  let ?ho = "headerOptions e args (files w)"
  let ?name = "ensureExeSuffix e
      (if filepath_Base (cwd e) = ''src'' then ''main'' else filepath_Base (cwd e))
      (Win64Docker (parseArgs args))"
  let ?line = "CXX ?ho @ '' -std=c++20 '' @ compileFlags ?ho @ ''  main.cpp -o '' @ ?name"
  have d: "discoverSources e = [''main.cpp'']" by (rule assms(1))
  have n: "normalOf (discoverSources e) = [''main.cpp'']" "testsOf (discoverSources e) = []"
    by (simp_all add: d normalOf_def testsOf_def scen_kinds)
  have ss: "singleStep ?ho (normalOf (discoverSources e)) (testsOf (discoverSources e))"
    using assms(5) by (simp add: singleStep_def n headerOptions_fields)
  have onp: "OutputName (plannedOptions e args (files w)) = ?name"
    using plannedOptions_OutputName [of "files w" e args]
    by (simp add: d findMain_scen guess_main)
  then have on: "OutputName ?ho = ?name" by (simp add: headerOptions_fields)
  have wd: "Win64Docker ?ho = Win64Docker (parseArgs args)" by (simp add: headerOptions_fields)
  have line: "singleStepLine e ?ho ''main.cpp'' = ?line"
    by (simp add: singleStepLine_def Let_def headerOptions_fields joinExtraCFlags_def
        joinExtraLDFlags_def onp ensureExeSuffix_idem)
  have m: "main e args w = buildStep e ?ho [''main.cpp''] [] w"
    using main_no_missing [OF assms(2,3,4) _ assms(6)] d n by simp
  let ?s = "singleStepBuild e ?ho ''main.cpp'' w"
  obtain r opts1 w1 where s: "?s = (r, opts1, w1)" by (cases ?s) auto
  have p1: "procs w1 = procs w @ [argvOf e ?ho ?line]"
    using singleStepBuild_simps(3) [of e ?ho "''main.cpp''" w] s line by simp
  have "\<exists>rest. procs (snd (main e args w)) = procs w @ argvOf e ?ho ?line # rest \<and>
                    (rest = [] \<or> rest = [[''./'' @ ?name]])"
  proof (cases r)
    case (Some err)
    with m s ss n p1 show ?thesis by (simp add: buildStep_def)
  next
    case None
    have o1: "opts1 = ?ho\<lparr>OutputName := ?name\<rparr>"
      using singleStepBuild_simps(1,6) [of e ?ho "''main.cpp''" w] s None on wd
      by (auto simp: ensureExeSuffix_idem split: if_splits)
    have t1: "\<not> Test opts1" using o1 assms(5) by (simp add: headerOptions_fields)
    have m2: "main e args w = runStep e opts1 w1"
      using m s ss n None t1 by (simp add: buildStep_def testStep_def)
    from runStep_procs [of e opts1 w1] o1 p1 m2 show ?thesis by auto
  qed
  with ss show ?thesis by (simp add: Let_def)
qed

theorem C9_single_main_witness:
  "discoverSources envA = [''main.cpp''] \<and>
   \<not> Version (parseArgs []) \<and> \<not> Clean (parseArgs []) \<and> \<not> Pro (parseArgs []) \<and>
   \<not> Test (parseArgs []) \<and>
   missingHeaders envA [] (files worldA) = [] \<and>
   singleStep (headerOptions envA [] (files worldA)) (normalOf (discoverSources envA))
     (testsOf (discoverSources envA))"
proof -
  have a: "discoverSources envA = [''main.cpp'']" by code_simp
  have v: "\<not> Version (parseArgs [])" by code_simp
  have c: "\<not> Clean (parseArgs [])" by code_simp
  have p: "\<not> Pro (parseArgs [])" by code_simp
  have t: "\<not> Test (parseArgs [])" by code_simp
  have m: "missingHeaders envA [] (files worldA) = []" by code_simp
  from C9_single_main [OF a v c p t m] a v c p t m show ?thesis by blast
qed

section \<open>Scenario B\<close>




section \<open>Updates of the cache\<close>




end
